theory Spec2Isabelle
  imports Complex_Main "HOL-Library.Sublist"
begin

chapter \<open>The explanation pipeline of app/ai\_utils.py\<close>

text \<open>
  A shallow embedding of the pure part of \<^verbatim>\<open>src/app/ai_utils.py\<close>: option
  correctness inference, the ordering of option indices, the row filter, the tolerant
  reply parser with its repair pass, and the normalisation of the reasons given for
  incorrect options.

  Conventions of the embedding.
  \<^item> A Python \<^verbatim>\<open>str\<close> is a \<^typ>\<open>string\<close>; a \<^typ>\<open>char\<close> stands for the code point
    of the same number, so the strings of the model are the Python strings over the
    code points 0 to 255 (ASCII and the Latin-1 supplement, which holds the range
    0xc0 to 0xff that the source's regular expressions name).
  \<^item> Library functions of Python are written out as far as the program uses them and
    keep their Python name with the prefix \<open>py_\<close>; regular expressions are written
    out by hand as matchers that return what \<^verbatim>\<open>match.end()\<close> or a group returns.
  \<^item> Three library functions, the wording of the instruction, the text-generation
    service and the assembly of the document are not written out; they are parameters,
    collected in the record \<open>env\<close> below.
  \<^item> An exception is a value: \<open>None\<close>, \<open>Raises\<close> with the exception, or an
    explicit outcome of the row.
\<close>

section \<open>Rows, replies and the environment\<close>

text \<open>A cell of a row, as \<^verbatim>\<open>row.get(column)\<close> returns it: \<^verbatim>\<open>None\<close>, the missing
  value \<^verbatim>\<open>NaN\<close> of pandas, a text, or a number. The program reads a number through
  \<^verbatim>\<open>str\<close> or through its truth value, so a numeric cell holds the number and the text
  that \<^verbatim>\<open>str\<close> gives for it.\<close>

datatype cell = PyNone | NaN | Txt string | Num real string

definition pd_isna :: "cell \<Rightarrow> bool" where
  "pd_isna c = (case c of PyNone \<Rightarrow> True | NaN \<Rightarrow> True | Txt s \<Rightarrow> False | Num x s \<Rightarrow> False)"

definition str_cell :: "cell \<Rightarrow> string" where
  "str_cell c =
     (case c of PyNone \<Rightarrow> ''None'' | NaN \<Rightarrow> ''nan'' | Txt s \<Rightarrow> s | Num x s \<Rightarrow> s)"

text \<open>Truth of a cell in \<^verbatim>\<open>a or b\<close>: \<^verbatim>\<open>None\<close>, the empty text and the number
  zero are false, \<^verbatim>\<open>NaN\<close> is true.\<close>

definition truthy :: "cell \<Rightarrow> bool" where
  "truthy c =
     (case c of PyNone \<Rightarrow> False | NaN \<Rightarrow> True | Txt s \<Rightarrow> s \<noteq> [] | Num x s \<Rightarrow> x \<noteq> 0)"

text \<open>A row with the columns the program reads. A score column holds what the
  program makes of it: \<open>None\<close> where \<^verbatim>\<open>pd.isna\<close> holds or \<^verbatim>\<open>float\<close> fails,
  the number otherwise (a finite one: the model has no infinite score).\<close>

record row =
  category :: cell
  sub_category :: cell
  question :: cell
  answer_header_true :: cell
  option_a_text :: cell
  option_a_score :: "real option"
  option_b_text :: cell
  option_b_score :: "real option"
  option_c_text :: cell
  option_c_score :: "real option"
  option_d_text :: cell
  option_d_score :: "real option"
  option_e_text :: cell
  option_e_score :: "real option"
  option_number :: cell
  option_number_score :: "real option"
  explanation :: cell
  explanation_ai :: cell

text \<open>\<^verbatim>\<open>OPTION_COLUMNS\<close> of \<^verbatim>\<open>config.py\<close>, in the order of the dictionary, and
  \<^verbatim>\<open>OPTION_TEXT_LABELS\<close>; a column is its getter.\<close>

definition OPTION_COLUMNS :: "(string \<times> (row \<Rightarrow> cell) \<times> (row \<Rightarrow> real option)) list" where
  "OPTION_COLUMNS =
     [(''A'', option_a_text, option_a_score),
      (''B'', option_b_text, option_b_score),
      (''C'', option_c_text, option_c_score),
      (''D'', option_d_text, option_d_score),
      (''E'', option_e_text, option_e_score),
      (''Pilihan'', option_number, option_number_score)]"

definition OPTION_TEXT_LABELS :: "string list" where
  "OPTION_TEXT_LABELS = filter (\<lambda>label. label \<noteq> ''Pilihan'') (map fst OPTION_COLUMNS)"

definition MIN_NUMERIC_PARAGRAPHS :: nat where
  "MIN_NUMERIC_PARAGRAPHS = 4"

text \<open>What \<^verbatim>\<open>json.loads\<close> returns. An object is the list of its items.\<close>

datatype json =
  JNull | JBool bool | JNum real | JStr string | JArr "json list" | JObj "(string \<times> json) list"

text \<open>A call that returns a value or raises. \<^verbatim>\<open>json.loads\<close> raises
  \<^verbatim>\<open>JSONDecodeError\<close> on a text that is no JSON; it raises \<^verbatim>\<open>ValueError\<close> on an
  integer literal with more digits than \<^verbatim>\<open>int\<close> converts, and \<^verbatim>\<open>RecursionError\<close>
  on arrays or objects nested deeper than the recursion limit.\<close>

datatype py_exception = JSONDecodeError | ValueError | RecursionError

datatype 'a raising = Raises py_exception | Returns 'a

text \<open>The environment: the library functions that are not written out, the wording of
  the instruction, the service and the assembly of the document.
  \<^item> \<open>html_unescape\<close> is \<^verbatim>\<open>html.unescape\<close>.
  \<^item> \<open>json_loads\<close> is \<^verbatim>\<open>json.loads\<close>.
  \<^item> \<open>repr_json\<close> is \<^verbatim>\<open>str\<close> on a value that is not a string.
  \<^item> \<open>prompt_text\<close> is the instruction that \<^verbatim>\<open>build_prompt\<close> composes for a row (lines
    560 to 769, a text computed from the row alone).
  \<^item> \<open>generate_content\<close> is the service: called with or without the generation
    configuration on a prompt, it raises (\<open>None\<close>) or returns a response, whose
    \<^verbatim>\<open>text\<close> is a text or \<^verbatim>\<open>None\<close>.
  \<^item> \<open>assemble\<close> is the rest of the loop body (lines 917 to 1069), from the parsed reply
    to the document; \<open>None\<close> when it raises.\<close>

record env =
  html_unescape :: "string \<Rightarrow> string"
  json_loads :: "string \<Rightarrow> json raising"
  repr_json :: "json \<Rightarrow> string"
  prompt_text :: "row \<Rightarrow> string"
  generate_content :: "bool \<Rightarrow> string \<Rightarrow> string option option"
  assemble :: "row \<Rightarrow> json \<Rightarrow> string option"

section \<open>Python string primitives\<close>

text \<open>\<^verbatim>\<open>str.isspace\<close> on one character, which is also the class \<^verbatim>\<open>\s\<close> of
  \<^verbatim>\<open>re\<close> on \<^verbatim>\<open>str\<close> patterns: tab to carriage return, the four separators
  0x1c to 0x1f, space, NEL and the no-break space.\<close>

definition py_isspace :: "char \<Rightarrow> bool" where
  "py_isspace c = (of_char c \<in> {9, 10, 11, 12, 13, 28, 29, 30, 31, 32, 133, 160 :: nat})"

definition py_lstrip :: "string \<Rightarrow> string" where
  "py_lstrip s = dropWhile py_isspace s"

definition py_rstrip :: "string \<Rightarrow> string" where
  "py_rstrip s = rev (dropWhile py_isspace (rev s))"

definition py_strip :: "string \<Rightarrow> string" where
  "py_strip s = py_lstrip (py_rstrip s)"

text \<open>\<^verbatim>\<open>s.lstrip(chars)\<close> and \<^verbatim>\<open>s.strip(chars)\<close> with an explicit character set.\<close>

definition py_lstrip_chars :: "string \<Rightarrow> string \<Rightarrow> string" where
  "py_lstrip_chars chars s = dropWhile (\<lambda>c. c \<in> set chars) s"

definition py_strip_chars :: "string \<Rightarrow> string \<Rightarrow> string" where
  "py_strip_chars chars s =
     dropWhile (\<lambda>c. c \<in> set chars) (rev (dropWhile (\<lambda>c. c \<in> set chars) (rev s)))"

text \<open>\<^verbatim>\<open>str.lower\<close>: the upper-case letters below 256 are A to Z and 0xc0 to 0xde
  without the multiplication sign 0xd7; each has its lower-case letter 32 places on.\<close>

definition py_lower_char :: "char \<Rightarrow> char" where
  "py_lower_char c =
     (let n = (of_char c :: nat) in
      if (65 \<le> n \<and> n \<le> 90) \<or> (192 \<le> n \<and> n \<le> 222 \<and> n \<noteq> 215)
      then char_of (n + 32) else c)"

definition py_lower :: "string \<Rightarrow> string" where
  "py_lower s = map py_lower_char s"

text \<open>\<^verbatim>\<open>str.isupper\<close> and \<^verbatim>\<open>str.isalpha\<close> on one character.\<close>

definition py_isupper :: "char \<Rightarrow> bool" where
  "py_isupper c =
     (let n = (of_char c :: nat) in
      (65 \<le> n \<and> n \<le> 90) \<or> (192 \<le> n \<and> n \<le> 222 \<and> n \<noteq> 215))"

definition py_isalpha :: "char \<Rightarrow> bool" where
  "py_isalpha c =
     (let n = (of_char c :: nat) in
      (65 \<le> n \<and> n \<le> 90) \<or> (97 \<le> n \<and> n \<le> 122) \<or> n = 170 \<or> n = 181 \<or> n = 186
      \<or> (192 \<le> n \<and> n \<le> 255 \<and> n \<noteq> 215 \<and> n \<noteq> 247))"

text \<open>\<^verbatim>\<open>str.upper\<close>. The sharp s (0xdf) becomes \<^verbatim>\<open>SS\<close>. The upper-case forms of the
  micro sign (0xb5) and of y with diaeresis (0xff) lie above 255; the model leaves these
  two characters as they are. The program only compares the result of \<^verbatim>\<open>upper\<close>
  with ASCII keys, which neither form equals.\<close>

definition py_upper_char :: "char \<Rightarrow> string" where
  "py_upper_char c =
     (let n = (of_char c :: nat) in
      if (97 \<le> n \<and> n \<le> 122) \<or> (224 \<le> n \<and> n \<le> 254 \<and> n \<noteq> 247)
      then [char_of (n - 32)]
      else if n = 223 then ''SS'' else [c])"

definition py_upper :: "string \<Rightarrow> string" where
  "py_upper s = concat (map py_upper_char s)"

definition py_startswith :: "string \<Rightarrow> string \<Rightarrow> bool" where
  "py_startswith s p = (take (length p) s = p)"

definition py_endswith :: "string \<Rightarrow> string \<Rightarrow> bool" where
  "py_endswith s p = (length p \<le> length s \<and> drop (length s - length p) s = p)"

text \<open>\<^verbatim>\<open>sub in s\<close> on strings.\<close>

fun py_in :: "string \<Rightarrow> string \<Rightarrow> bool" where
  "py_in sub [] = (sub = [])"
| "py_in sub (c # cs) = (py_startswith (c # cs) sub \<or> py_in sub cs)"

definition py_count :: "string \<Rightarrow> char \<Rightarrow> nat" where
  "py_count s c = length (filter (\<lambda>d. d = c) s)"

text \<open>\<^verbatim>\<open>s.split()\<close>: the maximal runs of characters that are not whitespace.\<close>

fun split_ws :: "string \<Rightarrow> string \<Rightarrow> string list" where
  "split_ws cur [] = (if cur = [] then [] else [cur])"
| "split_ws cur (c # cs) =
     (if py_isspace c then (if cur = [] then split_ws [] cs else cur # split_ws [] cs)
      else split_ws (cur @ [c]) cs)"

definition py_split :: "string \<Rightarrow> string list" where
  "py_split s = split_ws [] s"

fun py_join :: "string \<Rightarrow> string list \<Rightarrow> string" where
  "py_join sep [] = []"
| "py_join sep [x] = x"
| "py_join sep (x # y # ys) = x @ sep @ py_join sep (y # ys)"

text \<open>\<^verbatim>\<open>s.partition(":")\<close> on a one-character separator: the part before the first
  separator, whether there is one, and the part after it.\<close>

definition py_partition :: "char \<Rightarrow> string \<Rightarrow> string \<times> bool \<times> string" where
  "py_partition sep s =
     (let before = takeWhile (\<lambda>c. c \<noteq> sep) s; rest = dropWhile (\<lambda>c. c \<noteq> sep) s
      in (before, rest \<noteq> [], drop 1 rest))"

text \<open>The sentence punctuation of \<^verbatim>\<open>text.endswith((".", "!", "?"))\<close>.\<close>

definition ends_sentence :: "string \<Rightarrow> bool" where
  "ends_sentence s = (py_endswith s ''.'' \<or> py_endswith s ''!'' \<or> py_endswith s ''?'')"

section \<open>Regular expressions, written out\<close>

text \<open>A matcher takes the text at the cursor and returns the text after the match, or
  \<open>None\<close> when the piece does not match there. The pieces below are the ones the
  patterns of the program are built from; each pattern is greedy, and none of them needs
  to give back characters, since no piece can match a character that the piece before it
  has consumed.\<close>

type_synonym matcher = "string \<Rightarrow> string option"

text \<open>\<^verbatim>\<open>\s*\<close> and \<^verbatim>\<open>\s+\<close>.\<close>

definition re_ws0 :: matcher where
  "re_ws0 s = Some (dropWhile py_isspace s)"

definition re_ws1 :: matcher where
  "re_ws1 s = (case s of [] \<Rightarrow> None
                | c # cs \<Rightarrow> if py_isspace c then Some (dropWhile py_isspace cs) else None)"

text \<open>A literal under \<^verbatim>\<open>re.IGNORECASE\<close>; the literal is given in lower case.\<close>

definition re_lit :: "string \<Rightarrow> matcher" where
  "re_lit lit s =
     (if py_lower (take (length lit) s) = lit then Some (drop (length lit) s) else None)"

text \<open>A literal of a pattern without flags.\<close>

definition re_exact :: "string \<Rightarrow> matcher" where
  "re_exact lit s = (if take (length lit) s = lit then Some (drop (length lit) s) else None)"

text \<open>\<^verbatim>\<open>[:\-]*\<close>.\<close>

definition re_colon_dash0 :: matcher where
  "re_colon_dash0 s = Some (dropWhile (\<lambda>c. c = CHR '':'' \<or> c = CHR ''-'') s)"

text \<open>\<^verbatim>\<open>[A-E0-9]+\<close> under \<^verbatim>\<open>re.IGNORECASE\<close>.\<close>

definition is_option_code :: "char \<Rightarrow> bool" where
  "is_option_code c =
     (let n = (of_char c :: nat) in
      (65 \<le> n \<and> n \<le> 69) \<or> (97 \<le> n \<and> n \<le> 101) \<or> (48 \<le> n \<and> n \<le> 57))"

definition re_option_code1 :: matcher where
  "re_option_code1 s = (case s of [] \<Rightarrow> None
                | c # cs \<Rightarrow> if is_option_code c then Some (dropWhile is_option_code cs) else None)"

text \<open>Alternation and sequence.\<close>

definition re_alt :: "matcher \<Rightarrow> matcher \<Rightarrow> matcher" where
  "re_alt m1 m2 s = (case m1 s of Some t \<Rightarrow> Some t | None \<Rightarrow> m2 s)"

fun re_seq :: "matcher list \<Rightarrow> matcher" where
  "re_seq [] s = Some s"
| "re_seq (m # ms) s = (case m s of None \<Rightarrow> None | Some t \<Rightarrow> re_seq ms t)"

text \<open>The class \<^verbatim>\<open>[A-Za-z\<close>0xc0\<^verbatim>\<open>-\<close>0xff\<^verbatim>\<open>']\<close> of the word patterns.\<close>

definition is_word_char :: "char \<Rightarrow> bool" where
  "is_word_char c =
     (let n = (of_char c :: nat) in
      (65 \<le> n \<and> n \<le> 90) \<or> (97 \<le> n \<and> n \<le> 122) \<or> (192 \<le> n \<and> n \<le> 255) \<or> n = 39)"

text \<open>\<^verbatim>\<open>re.findall\<close> of one or more word characters: the maximal runs, left to right.\<close>

fun find_words :: "string \<Rightarrow> string \<Rightarrow> string list" where
  "find_words cur [] = (if cur = [] then [] else [cur])"
| "find_words cur (c # cs) =
     (if is_word_char c then find_words (cur @ [c]) cs
      else if cur = [] then find_words [] cs else cur # find_words [] cs)"

section \<open>Reasons of incorrect options\<close>

subsection \<open>Label prefixes\<close>

text \<open>\<^verbatim>\<open>_REASON_PREFIXES\<close> (lines 289 to 296), in the order of the source.\<close>

definition REASON_PREFIXES :: "matcher list" where
  "REASON_PREFIXES =
     [re_seq [re_ws0, re_lit ''jawaban'', re_ws1, re_lit ''yang'', re_ws1, re_lit ''kurang'',
              re_ws1, re_lit ''tepat'', re_ws0, re_colon_dash0, re_ws0],
      re_seq [re_ws0, re_lit ''jawaban'', re_ws1, re_lit ''kurang'', re_ws1, re_lit ''tepat'',
              re_ws0, re_colon_dash0, re_ws0],
      re_seq [re_ws0, re_lit ''jawaban'', re_ws1, re_lit ''salah'', re_ws0, re_colon_dash0, re_ws0],
      re_seq [re_ws0, re_lit ''opsi'', re_ws1, re_lit ''salah'', re_ws1, re_option_code1,
              re_ws0, re_colon_dash0, re_ws0],
      re_seq [re_ws0, re_lit ''-'', re_ws0, re_alt (re_lit ''opsi'') (re_lit ''pilihan''), re_ws1,
              re_option_code1, re_ws0, re_colon_dash0, re_ws0],
      re_seq [re_ws0, re_alt (re_lit ''opsi'') (re_lit ''pilihan''), re_ws1,
              re_option_code1, re_ws0, re_colon_dash0, re_ws0]]"

text \<open>One round of the loop of \<^verbatim>\<open>_strip_reason_prefix\<close>: every pattern in turn, each
  on what the one before left, then \<^verbatim>\<open>lstrip("-: ").strip()\<close>.\<close>

definition apply_prefix :: "matcher \<Rightarrow> string \<Rightarrow> string" where
  "apply_prefix pattern updated =
     (case pattern updated of Some rest \<Rightarrow> py_strip rest | None \<Rightarrow> updated)"

definition prefix_round :: "string \<Rightarrow> string" where
  "prefix_round cleaned =
     py_strip (py_lstrip_chars ''-: '' (fold apply_prefix REASON_PREFIXES cleaned))"

text \<open>Every piece returns an end of its input, and stripping returns a part of it: a round
  that changes the text shortens it, which is why the loop ends.\<close>

lemma sublist_py_strip: "sublist (py_strip s) s"
proof -
  have "sublist (py_rstrip s) s"
    unfolding py_rstrip_def by (metis sublist_dropWhile sublist_rev_left)
  moreover have "sublist (py_strip s) (py_rstrip s)"
    by (simp add: py_strip_def py_lstrip_def)
  ultimately show ?thesis
    using sublist_order.order.trans by blast
qed

lemma suffix_re_ws0: "re_ws0 s = Some t \<Longrightarrow> suffix t s"
  by (auto simp: re_ws0_def suffix_dropWhile)

lemma suffix_re_ws1: "re_ws1 s = Some t \<Longrightarrow> suffix t s"
  by (auto simp: re_ws1_def suffix_dropWhile suffix_ConsI split: list.splits if_splits)

lemma suffix_re_lit: "re_lit lit s = Some t \<Longrightarrow> suffix t s"
  by (auto simp: re_lit_def suffix_drop split: if_splits)

lemma suffix_re_colon_dash0: "re_colon_dash0 s = Some t \<Longrightarrow> suffix t s"
  by (auto simp: re_colon_dash0_def suffix_dropWhile)

lemma suffix_re_option_code1: "re_option_code1 s = Some t \<Longrightarrow> suffix t s"
  by (auto simp: re_option_code1_def suffix_dropWhile suffix_ConsI split: list.splits if_splits)

lemma suffix_re_alt:
  "(\<And>s t. m1 s = Some t \<Longrightarrow> suffix t s) \<Longrightarrow> (\<And>s t. m2 s = Some t \<Longrightarrow> suffix t s)
    \<Longrightarrow> re_alt m1 m2 s = Some t \<Longrightarrow> suffix t s"
  by (auto simp: re_alt_def split: option.splits)

lemma suffix_re_seq:
  "(\<And>m s t. m \<in> set ms \<Longrightarrow> m s = Some t \<Longrightarrow> suffix t s) \<Longrightarrow> re_seq ms s = Some t \<Longrightarrow> suffix t s"
proof (induction ms arbitrary: s)
  case Nil
  then show ?case by simp
next
  case (Cons m ms)
  from Cons.prems(2) obtain u where u: "m s = Some u" "re_seq ms u = Some t"
    by (auto split: option.splits)
  have "suffix u s" using Cons.prems(1)[of m s u] u(1) by simp
  moreover have "suffix t u" using Cons.IH[of u] Cons.prems(1) u(2) by auto
  ultimately show ?case by (rule suffix_order.trans[rotated])
qed

lemmas suffix_pieces =
  suffix_re_ws0 suffix_re_ws1 suffix_re_lit suffix_re_colon_dash0 suffix_re_option_code1

lemma suffix_REASON_PREFIXES:
  "pattern \<in> set REASON_PREFIXES \<Longrightarrow> pattern s = Some t \<Longrightarrow> suffix t s"
  unfolding REASON_PREFIXES_def
  by (auto elim!: suffix_re_seq[rotated] suffix_re_alt[rotated 2] dest: suffix_pieces)

lemma sublist_fold_apply_prefix:
  "set ps \<subseteq> set REASON_PREFIXES \<Longrightarrow> sublist (fold apply_prefix ps s) s"
proof (induction ps arbitrary: s)
  case Nil
  then show ?case by simp
next
  case (Cons p ps)
  have "sublist (apply_prefix p s) s"
  proof (cases "p s")
    case None
    then show ?thesis by (simp add: apply_prefix_def)
  next
    case (Some rest)
    then have "suffix rest s" using suffix_REASON_PREFIXES[of p s rest] Cons.prems by simp
    then have "sublist rest s" by simp
    then show ?thesis
      using Some sublist_py_strip[of rest] sublist_order.order.trans
      by (auto simp: apply_prefix_def)
  qed
  moreover have "sublist (fold apply_prefix ps (apply_prefix p s)) (apply_prefix p s)"
    using Cons by simp
  ultimately show ?case
    using sublist_order.order.trans by fastforce
qed

lemma sublist_prefix_round: "sublist (prefix_round s) s"
proof -
  have "sublist (prefix_round s) (fold apply_prefix REASON_PREFIXES s)"
    unfolding prefix_round_def py_lstrip_chars_def
    using sublist_py_strip sublist_dropWhile sublist_order.order.trans by blast
  then show ?thesis
    using sublist_fold_apply_prefix[of REASON_PREFIXES s] sublist_order.order.trans by blast
qed

lemma sublist_same_length: "sublist xs ys \<Longrightarrow> length xs = length ys \<Longrightarrow> xs = ys"
  by (auto simp: sublist_def)

lemma prefix_round_shortens: "prefix_round s \<noteq> s \<Longrightarrow> length (prefix_round s) < length s"
  using sublist_prefix_round[of s] sublist_same_length[of "prefix_round s" s]
    sublist_length_le[of "prefix_round s" s] by fastforce

text \<open>\<^verbatim>\<open>_strip_reason_prefix\<close> (lines 299 to 313): rounds until one changes nothing.\<close>

function strip_prefix_loop :: "string \<Rightarrow> string" where
  "strip_prefix_loop cleaned =
     (let updated = prefix_round cleaned
      in if updated = cleaned then cleaned else strip_prefix_loop updated)"
  by pat_completeness auto
termination
  by (relation "measure length") (auto simp: prefix_round_shortens)

definition strip_reason_prefix :: "string \<Rightarrow> string" where
  "strip_reason_prefix reason = strip_prefix_loop (py_strip reason)"

subsection \<open>Echo of the option text\<close>

text \<open>\<^verbatim>\<open>_strip_option_echo\<close> (lines 316 to 336). The source enters its loop only
  with a non-empty \<^verbatim>\<open>option_clean\<close> (the early return before it); the loop of the
  model carries that condition, so that it is a total function.\<close>

definition echo_trim :: "string \<Rightarrow> string \<Rightarrow> string" where
  "echo_trim option_clean cleaned_reason =
     py_strip (py_lstrip_chars '' ,:.-'' (drop (length option_clean) cleaned_reason))"

lemma echo_trim_shortens:
  assumes "option_clean \<noteq> []" "py_startswith (py_lower cleaned_reason) (py_lower option_clean)"
  shows "length (echo_trim option_clean cleaned_reason) < length cleaned_reason"
proof -
  have "length option_clean \<le> length cleaned_reason"
  proof (rule ccontr)
    assume "\<not> length option_clean \<le> length cleaned_reason"
    then have "length (take (length (py_lower option_clean)) (py_lower cleaned_reason))
                 < length (py_lower option_clean)"
      by (simp add: py_lower_def)
    then show False using assms(2) by (simp add: py_startswith_def)
  qed
  then have "length (drop (length option_clean) cleaned_reason) < length cleaned_reason"
    using assms(1) by (cases option_clean) auto
  moreover have "length (echo_trim option_clean cleaned_reason)
                   \<le> length (drop (length option_clean) cleaned_reason)"
    unfolding echo_trim_def py_lstrip_chars_def
    by (meson sublist_py_strip sublist_dropWhile sublist_length_le order_trans)
  ultimately show ?thesis by linarith
qed

function echo_loop :: "string \<Rightarrow> string \<Rightarrow> string" where
  "echo_loop option_clean cleaned_reason =
     (if option_clean = [] \<or> \<not> py_startswith (py_lower cleaned_reason) (py_lower option_clean)
      then cleaned_reason
      else (let trimmed = echo_trim option_clean cleaned_reason
            in if trimmed = [] then [] else echo_loop option_clean trimmed))"
  by pat_completeness auto
termination
  by (relation "measure (\<lambda>(option_clean, cleaned_reason). length cleaned_reason)")
     (auto simp: echo_trim_shortens)

definition strip_option_echo :: "string \<Rightarrow> string \<Rightarrow> string" where
  "strip_option_echo reason option_text =
     (let cleaned_reason = py_strip reason; option_clean = py_strip option_text
      in if option_clean = [] then cleaned_reason else echo_loop option_clean cleaned_reason)"

subsection \<open>Capital letters after the colon\<close>

text \<open>\<^verbatim>\<open>_extract_proper_tokens\<close> (lines 359 to 369): the words that start with an
  upper-case letter, over all the texts given.\<close>

definition extract_proper_tokens :: "string list \<Rightarrow> string set" where
  "extract_proper_tokens texts =
     set (concat (map (\<lambda>text. filter (\<lambda>token. token \<noteq> [] \<and> py_isupper (hd token))
                                 (find_words [] text)) texts))"

text \<open>\<^verbatim>\<open>_normalize_reason_capital\<close> (lines 372 to 415). \<^verbatim>\<open>re.match\<close> of the word
  pattern at the head of a text finds the longest run of word characters there, and
  finds nothing when that run is empty.\<close>

definition normalize_reason_capital :: "string \<Rightarrow> string set \<Rightarrow> string" where
  "normalize_reason_capital text preserve_tokens =
     (if text = [] then text
      else
        let leading_spaces = length text - length (py_lstrip text);
            working = drop leading_spaces text;
            (prefix, sep, suffix) = py_partition CHR '':'' working
        in if sep \<and> suffix \<noteq> [] then
             (let rest0 = py_lstrip suffix;
                  rest1 = (if py_startswith (py_lower rest0) ''adalah ''
                           then drop (length ''adalah '') rest0 else rest0);
                  word = takeWhile is_word_char rest1;
                  rest = (if rest1 \<noteq> [] \<and> word \<noteq> [] \<and> word \<notin> preserve_tokens
                              \<and> py_lower word \<noteq> ''anda''
                          then py_lower word @ drop (length word) rest1 else rest1);
                  spaces = take (length suffix - length (py_lstrip suffix)) suffix;
                  space_after = (if spaces \<noteq> [] then spaces else '' '')
              in if rest = [] then text
                 else take leading_spaces text @ (prefix @ '':'' @ space_after @ rest))
           else
             (let cleaned = working;
                  idx = length (takeWhile (\<lambda>c. \<not> py_isalpha c) cleaned)
              in if idx \<ge> length cleaned then text
                 else
                   let word = takeWhile is_word_char (drop idx cleaned)
                   in if word = [] then text
                      else if word \<in> preserve_tokens \<or> py_lower word = ''anda'' then text
                      else
                        let lowered = py_lower [hd word] @ tl word
                        in take (leading_spaces + idx) text @ lowered
                             @ drop (idx + length word) cleaned))"

subsection \<open>Enrichment\<close>

text \<open>\<^verbatim>\<open>_enrich_reason\<close> (lines 418 to 455). \<^verbatim>\<open>supplements\<close> holds no or one
  sentence; \<^verbatim>\<open>question_summary\<close> is a parameter the body never reads.\<close>

definition enrich_reason :: "string \<Rightarrow> string \<Rightarrow> string \<Rightarrow> string \<Rightarrow> string" where
  "enrich_reason option_text reason correct_text question_summary =
     (let stripped = py_strip reason;
          cleaned_reason =
            (if stripped \<noteq> [] \<and> \<not> ends_sentence stripped then stripped @ ''.'' else stripped);
          sentence_count =
            py_count cleaned_reason CHR ''.'' + py_count cleaned_reason CHR ''!''
              + py_count cleaned_reason CHR ''?'';
          word_count = length (py_split cleaned_reason);
          supplements =
            (if sentence_count < 2 \<or> word_count < 25 then
               (if option_text \<noteq> [] \<and> correct_text \<noteq> [] then
                  [''penjelasan ini masih menyoroti '' @ option_text
                     @ '' tanpa mengaitkannya dengan inti soal mengenai '' @ correct_text @ ''.'']
                else if correct_text \<noteq> [] then
                  [''penjelasan ini belum menunjukkan keterkaitan dengan tuntutan soal tentang ''
                     @ correct_text @ ''.'']
                else
                  [''penjelasan perlu menyebutkan secara spesifik mengapa pilihan ini tidak memenuhi kebutuhan soal.''])
             else []);
          enriched =
            (if supplements \<noteq> [] then
               (if cleaned_reason \<noteq> [] \<and> \<not> py_endswith cleaned_reason '' ''
                then cleaned_reason @ '' '' else cleaned_reason)
                 @ py_join '' '' supplements
             else cleaned_reason)
      in py_strip enriched)"

subsection \<open>The three steps on one reason\<close>

text \<open>Lines 1055 to 1057 of \<^verbatim>\<open>generate_ai_explanations\<close>: the reason of one incorrect
  option goes through prefix stripping, echo stripping and enrichment, in this order.\<close>

definition normalize_reason :: "string \<Rightarrow> string \<Rightarrow> string \<Rightarrow> string \<Rightarrow> string" where
  "normalize_reason option_text main_option question_summary reason =
     enrich_reason option_text
       (strip_option_echo (strip_reason_prefix reason) option_text) main_option question_summary"

section \<open>Sanitising and labels\<close>

text \<open>\<^verbatim>\<open>re.sub(r"<[^>]+>", " ", text)\<close>: at a \<^verbatim>\<open><\<close>, the characters up to the next
  \<^verbatim>\<open>>\<close> are a tag when there is at least one of them and the \<^verbatim>\<open>>\<close> is there.\<close>

function strip_tags :: "string \<Rightarrow> string" where
  "strip_tags [] = []"
| "strip_tags (c # cs) =
     (let inner = takeWhile (\<lambda>d. d \<noteq> CHR ''>'') cs; after = dropWhile (\<lambda>d. d \<noteq> CHR ''>'') cs
      in if c = CHR ''<'' \<and> inner \<noteq> [] \<and> after \<noteq> [] then CHR '' '' # strip_tags (tl after)
         else c # strip_tags cs)"
  by pat_completeness auto
termination
proof (relation "measure length")
  show "wf (measure length)" by simp
next
  fix c :: char and cs inner after
  assume "after = dropWhile (\<lambda>d. d \<noteq> CHR ''>'') cs"
  then have "length (tl after) \<le> length cs"
    using length_dropWhile_le[of "\<lambda>d. d \<noteq> CHR ''>''" cs] by simp
  then show "(tl after, c # cs) \<in> measure length" by simp
next
  fix c :: char and cs :: string
  show "(cs, c # cs) \<in> measure length" by simp
qed

text \<open>\<^verbatim>\<open>re.sub(r"\s+", " ", text)\<close>.\<close>

function collapse_ws :: "string \<Rightarrow> string" where
  "collapse_ws [] = []"
| "collapse_ws (c # cs) =
     (if py_isspace c then CHR '' '' # collapse_ws (dropWhile py_isspace cs)
      else c # collapse_ws cs)"
  by pat_completeness auto
termination
  by (relation "measure length") (auto simp: length_dropWhile_le less_Suc_eq_le)

text \<open>\<^verbatim>\<open>_sanitize_text\<close> (lines 19 to 26), on the text of its argument.\<close>

definition sanitize_text :: "env \<Rightarrow> string \<Rightarrow> string" where
  "sanitize_text e v =
     (let text = html_unescape e v;
          text = strip_tags text;
          text = map (\<lambda>c. if c = CHR 0x0A \<or> c = CHR 0x0D then CHR '' '' else c) text;
          text = collapse_ws text
      in py_strip text)"

text \<open>\<^verbatim>\<open>_normalize_label\<close> (lines 29 to 35).\<close>

definition normalize_label :: "cell \<Rightarrow> string" where
  "normalize_label v =
     (case v of PyNone \<Rightarrow> [] | _ \<Rightarrow> py_lower (py_strip (collapse_ws (str_cell v))))"

text \<open>\<^verbatim>\<open>_should_skip_row\<close> (lines 38 to 50).\<close>

definition should_skip_row :: "cell \<Rightarrow> cell \<Rightarrow> string option" where
  "should_skip_row category_value sub_category_value =
     (let category_norm = normalize_label category_value
      in if category_norm \<noteq> ''tiu'' then None
         else
           let sub_norm = normalize_label sub_category_value
           in if py_startswith sub_norm ''figural'' then Some ''subkategori TIU figural di-skip.''
              else if py_startswith sub_norm ''numerik deret''
                   then Some ''subkategori TIU numerik deret di-skip.''
              else None)"

text \<open>\<^verbatim>\<open>_is_tiu_numerik\<close> (lines 53 to 60).\<close>

definition is_tiu_numerik :: "cell \<Rightarrow> cell \<Rightarrow> bool" where
  "is_tiu_numerik category_value sub_category_value =
     (let category_norm = normalize_label category_value
      in if category_norm \<noteq> ''tiu'' then False
         else
           let sub_norm = normalize_label sub_category_value
           in py_startswith sub_norm ''numerik'' \<and> \<not> py_startswith sub_norm ''numerik deret'')"

section \<open>Which options are correct\<close>

text \<open>\<^verbatim>\<open>_extract_option_scores\<close> (lines 81 to 97): the scores of the options A to E.\<close>

definition extract_option_scores :: "row \<Rightarrow> real option list" where
  "extract_option_scores r =
     map (\<lambda>(label, text_col, score_col). score_col r)
       (filter (\<lambda>(label, text_col, score_col). label \<in> set OPTION_TEXT_LABELS) OPTION_COLUMNS)"

text \<open>The letter codes of \<^verbatim>\<open>_infer_correct_indices\<close>.\<close>

definition letter_mapping :: "(string \<times> nat) list" where
  "letter_mapping =
     [(''A'', 0), (''B'', 1), (''C'', 2), (''D'', 3), (''E'', 4),
      (''PILIHAN A'', 0), (''PILIHAN B'', 1), (''PILIHAN C'', 2), (''PILIHAN D'', 3),
      (''PILIHAN E'', 4)]"

text \<open>\<^verbatim>\<open>max\<close> of a list that is not empty, and \<^verbatim>\<open>list(dict.fromkeys(xs))\<close>: the
  elements in the order of their first occurrence.\<close>

definition py_max :: "real list \<Rightarrow> real" where
  "py_max xs = fold max (tl xs) (hd xs)"

fun dict_fromkeys :: "nat list \<Rightarrow> nat list \<Rightarrow> nat list" where
  "dict_fromkeys seen [] = []"
| "dict_fromkeys seen (x # xs) =
     (if x \<in> set seen then dict_fromkeys seen xs else x # dict_fromkeys (seen @ [x]) xs)"

text \<open>The pattern \<^verbatim>\<open>jawaban yang (?:benar|tepat)\s*[:\-]\s*(.+)\<close> at the head of a
  text; the result is group 1. The last \<^verbatim>\<open>\s*\<close> gives characters back when nothing
  but a line feed follows it, since \<^verbatim>\<open>.\<close> matches no line feed: \<open>backtrack_dot\<close> tries
  the whitespace it took (given last character first) from its last character down to
  its first. The pattern has no flag, so its literals are matched as they are.\<close>

fun backtrack_dot :: "string \<Rightarrow> string \<Rightarrow> string option" where
  "backtrack_dot taken_rev rest =
     (if rest \<noteq> [] \<and> hd rest \<noteq> CHR 0x0A then Some (takeWhile (\<lambda>d. d \<noteq> CHR 0x0A) rest)
      else (case taken_rev of [] \<Rightarrow> None | w # ws \<Rightarrow> backtrack_dot ws (w # rest)))"

definition match_answer :: "string \<Rightarrow> string option" where
  "match_answer s =
     (case re_seq [re_exact ''jawaban yang '', re_alt (re_exact ''benar'') (re_exact ''tepat''),
                   re_ws0] s of
        None \<Rightarrow> None
      | Some t \<Rightarrow>
          (case t of
             [] \<Rightarrow> None
           | c # cs \<Rightarrow>
               if c = CHR '':'' \<or> c = CHR ''-''
               then backtrack_dot (rev (takeWhile py_isspace cs)) (dropWhile py_isspace cs)
               else None))"

text \<open>\<^verbatim>\<open>re.search\<close>: the first position where the pattern matches.\<close>

fun search_answer :: "string \<Rightarrow> string option" where
  "search_answer [] = match_answer []"
| "search_answer (c # cs) =
     (case match_answer (c # cs) of Some g \<Rightarrow> Some g | None \<Rightarrow> search_answer cs)"

text \<open>\<^verbatim>\<open>_infer_correct_indices\<close> (lines 458 to 543), one definition for each of its
  four sources, in the order in which it tries them.\<close>

definition option_letter :: "row \<Rightarrow> string" where
  "option_letter r = py_upper (py_strip (str_cell (option_number r)))"

definition scored_options :: "row \<Rightarrow> (nat \<times> real) list" where
  "scored_options r =
     concat (map (\<lambda>(idx, (label, text_col, score_col)).
                    case score_col r of None \<Rightarrow> [] | Some numeric \<Rightarrow> [(idx, numeric)])
                 (enumerate 0 OPTION_COLUMNS))"

definition indices_by_score :: "row \<Rightarrow> nat list" where
  "indices_by_score r =
     (if scored_options r = [] then []
      else
        let max_score = py_max (map snd (scored_options r))
        in concat (map (\<lambda>(idx, value).
                     if value \<noteq> max_score then []
                     else if fst (OPTION_COLUMNS ! idx) = ''Pilihan''
                          then (case map_of letter_mapping (option_letter r) of
                                  Some mapped \<Rightarrow> [mapped] | None \<Rightarrow> [])
                          else [idx])
                   (scored_options r)))"

definition indices_by_answer :: "env \<Rightarrow> row \<Rightarrow> string list \<Rightarrow> nat list" where
  "indices_by_answer e r option_texts =
     (let cleaned_answer = py_lower (sanitize_text e (str_cell (answer_header_true r)))
      in concat (map (\<lambda>(idx, text).
                   let candidate = py_strip (py_lower text)
                   in if candidate = [] then []
                      else if cleaned_answer = candidate \<or> py_endswith cleaned_answer candidate
                                \<or> py_in candidate cleaned_answer
                           then [idx] else [])
                 (enumerate 0 option_texts)))"

definition indices_by_explanation :: "env \<Rightarrow> cell \<Rightarrow> string list \<Rightarrow> nat list" where
  "indices_by_explanation e explanation_text option_texts =
     (let cleaned_explanation = py_lower (sanitize_text e (str_cell explanation_text))
      in case search_answer cleaned_explanation of
           None \<Rightarrow> []
         | Some answer_segment \<Rightarrow>
             (case List.find (\<lambda>(idx, text).
                      let candidate = py_strip (py_lower text)
                      in candidate \<noteq> []
                         \<and> (py_startswith answer_segment candidate \<or> py_in candidate answer_segment))
                    (enumerate 0 option_texts) of
                None \<Rightarrow> []
              | Some (idx, text) \<Rightarrow> [idx]))"

definition infer_from_texts :: "env \<Rightarrow> row \<Rightarrow> string list \<Rightarrow> nat list" where
  "infer_from_texts e r option_texts =
     (let by_answer = (if \<not> pd_isna (answer_header_true r)
                       then indices_by_answer e r option_texts else [])
      in if by_answer \<noteq> [] then by_answer
         else
           let explanation_text = (if truthy (explanation r) then explanation r
                                   else explanation_ai r)
           in if \<not> pd_isna explanation_text
              then indices_by_explanation e explanation_text option_texts else [])"

definition infer_correct_indices :: "env \<Rightarrow> row \<Rightarrow> string list \<Rightarrow> nat list" where
  "infer_correct_indices e r option_texts =
     (if indices_by_score r \<noteq> [] then dict_fromkeys [] (indices_by_score r)
      else
        case map_of letter_mapping (option_letter r) of
          Some mapped \<Rightarrow>
            if mapped < length option_texts then [mapped]
            else infer_from_texts e r option_texts
        | None \<Rightarrow> infer_from_texts e r option_texts)"

section \<open>The prompt data and the order of the indices\<close>

text \<open>What \<^verbatim>\<open>build_prompt\<close> returns (lines 771 to 777); a field has the name
  of its key, after \<open>pd_\<close>.\<close>

record prompt_data =
  pd_prompt :: string
  pd_option_map :: "string list"
  pd_correct_indices :: "nat list"
  pd_incorrect_indices :: "nat list"
  pd_question_summary :: string

text \<open>\<^verbatim>\<open>build_prompt\<close> (lines 546 to 777). The option texts are lines 549 to 558,
  the indices lines 723 to 733; the wording of the instruction is \<open>prompt_text\<close>.\<close>

definition build_option_map :: "env \<Rightarrow> row \<Rightarrow> string list" where
  "build_option_map e r =
     map (\<lambda>(label, text_col, score_col).
            let option_text = text_col r
            in if \<not> pd_isna option_text \<and> py_strip (str_cell option_text) \<noteq> []
               then sanitize_text e (str_cell option_text) else [])
       (filter (\<lambda>(label, text_col, score_col). label \<in> set OPTION_TEXT_LABELS) OPTION_COLUMNS)"

definition reorder_correct :: "string list \<Rightarrow> nat list \<Rightarrow> nat list" where
  "reorder_correct option_map correct_indices =
     (if correct_indices \<noteq> [] then
        (let textful = filter (\<lambda>idx. idx < length option_map \<and> option_map ! idx \<noteq> [])
                         correct_indices
         in if textful \<noteq> []
            then textful @ filter (\<lambda>idx. idx \<notin> set textful) correct_indices
            else correct_indices)
      else correct_indices)"

definition build_prompt :: "env \<Rightarrow> row \<Rightarrow> prompt_data" where
  "build_prompt e r =
     (let question_text = py_strip (str_cell (question r));
          question_summary = sanitize_text e question_text;
          option_map = build_option_map e r;
          correct_indices = reorder_correct option_map (infer_correct_indices e r option_map);
          incorrect_indices =
            filter (\<lambda>idx. idx \<notin> set correct_indices \<and> idx < length option_map
                            \<and> option_map ! idx \<noteq> [])
              [0 ..< length option_map]
      in \<lparr> pd_prompt = prompt_text e r, pd_option_map = option_map,
           pd_correct_indices = correct_indices, pd_incorrect_indices = incorrect_indices,
           pd_question_summary = question_summary \<rparr>)"

text \<open>A Python \<^verbatim>\<open>float\<close> in a sort key: a number, or an infinity.\<close>

datatype pyfloat = MinusInf | Finite real | PlusInf

fun float_neg :: "pyfloat \<Rightarrow> pyfloat" where
  "float_neg MinusInf = PlusInf"
| "float_neg (Finite x) = Finite (- x)"
| "float_neg PlusInf = MinusInf"

fun float_lt :: "pyfloat \<Rightarrow> pyfloat \<Rightarrow> bool" where
  "float_lt MinusInf b = (b \<noteq> MinusInf)"
| "float_lt (Finite x) (Finite y) = (x < y)"
| "float_lt (Finite x) PlusInf = True"
| "float_lt (Finite x) MinusInf = False"
| "float_lt PlusInf b = False"

text \<open>\<^verbatim>\<open>_score_sort_key\<close> (lines 109 to 112), and the order of Python on such
  pairs.\<close>

definition score_sort_key :: "nat \<Rightarrow> real option list \<Rightarrow> pyfloat \<times> nat" where
  "score_sort_key idx scores =
     (let score = (if idx < length scores then scores ! idx else None);
          score_value = (case score of Some x \<Rightarrow> Finite x | None \<Rightarrow> MinusInf)
      in (float_neg score_value, idx))"

definition key_lt :: "pyfloat \<times> nat \<Rightarrow> pyfloat \<times> nat \<Rightarrow> bool" where
  "key_lt a b = (float_lt (fst a) (fst b) \<or> (fst a = fst b \<and> snd a < snd b))"

text \<open>\<^verbatim>\<open>sorted(xs, key=key)\<close>: a stable sort; an element goes before the first one
  whose key is not smaller than its own.\<close>

fun insert_by_key :: "('a \<Rightarrow> pyfloat \<times> nat) \<Rightarrow> 'a \<Rightarrow> 'a list \<Rightarrow> 'a list" where
  "insert_by_key key x [] = [x]"
| "insert_by_key key x (y # ys) =
     (if key_lt (key y) (key x) then y # insert_by_key key x ys else x # y # ys)"

definition py_sorted :: "('a \<Rightarrow> pyfloat \<times> nat) \<Rightarrow> 'a list \<Rightarrow> 'a list" where
  "py_sorted key xs = foldr (insert_by_key key) xs []"

text \<open>\<^verbatim>\<open>_order_indices\<close> (lines 115 to 131).\<close>

fun order_filter :: "string list \<Rightarrow> nat set \<Rightarrow> nat list \<Rightarrow> nat list \<Rightarrow> nat list" where
  "order_filter option_map seen filtered [] = filtered"
| "order_filter option_map seen filtered (idx # rest) =
     (if idx \<in> seen \<or> idx \<ge> length option_map then order_filter option_map seen filtered rest
      else if option_map ! idx = [] then order_filter option_map seen filtered rest
      else order_filter option_map (insert idx seen) (filtered @ [idx]) rest)"

definition order_indices :: "nat list \<Rightarrow> real option list \<Rightarrow> string list \<Rightarrow> nat list" where
  "order_indices indices scores option_map =
     py_sorted (\<lambda>idx. score_sort_key idx scores) (order_filter option_map {} [] indices)"

text \<open>Lines 828 to 847 of \<^verbatim>\<open>generate_ai_explanations\<close>: the two lists of a row as the
  rest of the loop body uses them.\<close>

definition ordered_indices :: "env \<Rightarrow> row \<Rightarrow> nat list \<times> nat list" where
  "ordered_indices e r =
     (let prompt_data = build_prompt e r;
          option_scores = extract_option_scores r
      in (order_indices (pd_correct_indices prompt_data) option_scores (pd_option_map prompt_data),
          order_indices (pd_incorrect_indices prompt_data) option_scores
            (pd_option_map prompt_data)))"

section \<open>The reply parser\<close>

text \<open>\<^verbatim>\<open>_is_escaped\<close> (lines 191 to 197): whether the number of backslashes right
  before position \<open>idx\<close> is odd. \<open>count_backslashes text idx\<close> is the loop; its cursor
  is \<open>idx - 1\<close>.\<close>

fun count_backslashes :: "string \<Rightarrow> nat \<Rightarrow> nat" where
  "count_backslashes text 0 = 0"
| "count_backslashes text (Suc cursor) =
     (if text ! cursor = CHR 0x5C then Suc (count_backslashes text cursor) else 0)"

definition is_escaped :: "string \<Rightarrow> nat \<Rightarrow> bool" where
  "is_escaped text idx = (count_backslashes text idx mod 2 = 1)"

text \<open>\<^verbatim>\<open>_repair_json_text\<close> (lines 200 to 236). The characters that may follow a
  backslash are those of \<^verbatim>\<open>"\"\\/bfnrtu"\<close>.\<close>

definition escape_chars :: string where
  "escape_chars = [CHR 0x22, CHR 0x5C] @ ''/bfnrtu''"

function repair_loop :: "string \<Rightarrow> nat \<Rightarrow> bool \<Rightarrow> string \<Rightarrow> string" where
  "repair_loop raw_text idx in_string result =
     (if idx < length raw_text then
        (let char = raw_text ! idx
         in if char = CHR 0x22 \<and> \<not> is_escaped raw_text idx
            then repair_loop raw_text (idx + 1) (\<not> in_string) (result @ [char])
            else if in_string \<and> char = CHR 0x0A
            then repair_loop raw_text (idx + 1) in_string (result @ [CHR 0x5C, CHR ''n''])
            else if in_string \<and> char = CHR 0x0D
            then repair_loop raw_text (idx + 1) in_string (result @ [CHR 0x5C, CHR ''r''])
            else if in_string \<and> char = CHR 0x5C
            then (if idx + 1 < length raw_text \<and> raw_text ! (idx + 1) \<in> set escape_chars
                  then repair_loop raw_text (idx + 2) in_string
                         (result @ [char, raw_text ! (idx + 1)])
                  else repair_loop raw_text (idx + 1) in_string (result @ [CHR 0x5C, CHR 0x5C]))
            else repair_loop raw_text (idx + 1) in_string (result @ [char]))
      else result)"
  by pat_completeness auto
termination
  by (relation "measure (\<lambda>(raw_text, idx, in_string, result). length raw_text - idx)") auto

definition repair_json_text :: "string \<Rightarrow> string" where
  "repair_json_text raw_text = repair_loop raw_text 0 False []"

text \<open>\<^verbatim>\<open>str.find\<close> and \<^verbatim>\<open>str.rfind\<close> of one character; \<open>None\<close> is their -1.\<close>

definition py_find :: "char \<Rightarrow> string \<Rightarrow> nat option" where
  "py_find c s = (if c \<in> set s then Some (length (takeWhile (\<lambda>d. d \<noteq> c) s)) else None)"

definition py_rfind :: "char \<Rightarrow> string \<Rightarrow> nat option" where
  "py_rfind c s =
     (if c \<in> set s then Some (length s - 1 - length (takeWhile (\<lambda>d. d \<noteq> c) (rev s))) else None)"

text \<open>A value that \<^verbatim>\<open>json.loads\<close> returned, read as the \<^verbatim>\<open>Optional\<close> that
  \<^verbatim>\<open>_parse_response\<close> returns: the \<^verbatim>\<open>null\<close> of JSON is the \<^verbatim>\<open>None\<close> of Python.\<close>

definition loaded :: "json \<Rightarrow> json option" where
  "loaded v = (if v = JNull then None else Some v)"

text \<open>One \<^verbatim>\<open>try: parsed = json.loads(text)\<close> with its
  \<^verbatim>\<open>except json.JSONDecodeError:\<close> and the handler of that clause. Any other exception
  leaves the function.\<close>

definition try_loads :: "env \<Rightarrow> string \<Rightarrow> json option raising \<Rightarrow> json option raising" where
  "try_loads e text handler =
     (case json_loads e text of
        Returns parsed \<Rightarrow> Returns (loaded parsed)
      | Raises x \<Rightarrow> if x = JSONDecodeError then handler else Raises x)"

text \<open>\<^verbatim>\<open>_parse_response\<close> (lines 264 to 286).\<close>

definition parse_response :: "env \<Rightarrow> string \<Rightarrow> json option raising" where
  "parse_response e raw_text =
     try_loads e raw_text
       (let repaired = repair_json_text raw_text
        in try_loads e repaired
             (case (py_find CHR ''{'' raw_text, py_rfind CHR ''}'' raw_text) of
                (Some start, Some end) \<Rightarrow>
                  if end > start then
                    (let candidate = take (end + 1 - start) (drop start raw_text)
                     in try_loads e candidate
                          (let repaired_candidate = repair_json_text candidate
                           in try_loads e repaired_candidate (Returns None)))
                  else Returns None
              | _ \<Rightarrow> Returns None))"

section \<open>One row of the loop\<close>

text \<open>\<^verbatim>\<open>str.replace\<close>, for a text \<open>old\<close> that is not empty.\<close>

function py_replace :: "string \<Rightarrow> string \<Rightarrow> string \<Rightarrow> string" where
  "py_replace old new [] = []"
| "py_replace old new (c # cs) =
     (if old \<noteq> [] \<and> py_startswith (c # cs) old
      then new @ py_replace old new (drop (length old) (c # cs))
      else c # py_replace old new cs)"
  by pat_completeness auto
termination
  by (relation "measure (\<lambda>(old, new, s). length s)") (auto simp: Suc_diff_le)

text \<open>\<^verbatim>\<open>str(item)\<close> on a value of the reply.\<close>

definition str_json :: "env \<Rightarrow> json \<Rightarrow> string" where
  "str_json e j = (case j of JStr s \<Rightarrow> s | _ \<Rightarrow> repr_json e j)"

text \<open>\<^verbatim>\<open>data.get(key)\<close>: \<open>None\<close> when \<open>data\<close> is no dictionary and the call raises;
  the \<^verbatim>\<open>None\<close> of a missing key is \<open>JNull\<close>.\<close>

definition dict_get :: "json \<Rightarrow> string \<Rightarrow> json option" where
  "dict_get data key =
     (case data of
        JObj items \<Rightarrow> (case map_of items key of Some v \<Rightarrow> Some v | None \<Rightarrow> Some JNull)
      | _ \<Rightarrow> None)"

text \<open>\<^verbatim>\<open>_normalize_detail_paragraphs\<close> (lines 254 to 261); \<open>None\<close> when
  \<^verbatim>\<open>list(value)\<close> raises, that is on a number or a truth value.\<close>

definition normalize_detail_paragraphs :: "env \<Rightarrow> json \<Rightarrow> string list option" where
  "normalize_detail_paragraphs e v =
     (let paragraphs =
            (case v of
               JStr s \<Rightarrow> Some [JStr s]
             | JNull \<Rightarrow> Some []
             | JArr items \<Rightarrow> Some items
             | JObj items \<Rightarrow> Some (map (\<lambda>(k, x). JStr k) items)
             | _ \<Rightarrow> None)
      in case paragraphs of
           None \<Rightarrow> None
         | Some ps \<Rightarrow>
             Some (map (\<lambda>item. py_strip (str_json e item))
                     (filter (\<lambda>item. py_strip (str_json e item) \<noteq> []) ps)))"

text \<open>\<^verbatim>\<open>_dedupe_paragraphs\<close> (lines 239 to 251).\<close>

fun dedupe_loop :: "string set \<Rightarrow> string list \<Rightarrow> string list \<Rightarrow> string list" where
  "dedupe_loop seen result [] = result"
| "dedupe_loop seen result (paragraph # rest) =
     (let text = py_strip paragraph
      in if text = [] then dedupe_loop seen result rest
         else
           let normalized = py_strip (collapse_ws text)
           in if normalized \<in> seen then dedupe_loop seen result rest
              else dedupe_loop (insert normalized seen) (result @ [text]) rest)"

definition dedupe_paragraphs :: "string list \<Rightarrow> string list" where
  "dedupe_paragraphs paragraphs = dedupe_loop {} [] paragraphs"

text \<open>One request to the service (lines 856 to 872, and again 896 to 912): the call
  with the generation configuration, on an exception the call without it; then the text
  of the response without its code fence. The result is the text, or \<open>None\<close> when the
  second call raises too, and the calls made, each with its flag and its prompt.\<close>

definition unfence :: "string \<Rightarrow> string" where
  "unfence text =
     (let raw_text = py_replace ''```,'' ''```'' text
      in if py_startswith raw_text ''```'' then
           (let raw_text = py_strip raw_text;
                raw_text = (if py_startswith raw_text ''```json''
                            then drop (length ''```json'') raw_text else raw_text)
            in py_strip (py_strip_chars ''`'' raw_text))
         else raw_text)"

definition response_text :: "string option \<Rightarrow> string" where
  "response_text response = unfence (py_strip (case response of Some t \<Rightarrow> t | None \<Rightarrow> []))"

definition request :: "env \<Rightarrow> string \<Rightarrow> string option \<times> (bool \<times> string) list" where
  "request e p =
     (case generate_content e True p of
        Some response \<Rightarrow> (Some (response_text response), [(True, p)])
      | None \<Rightarrow>
          (case generate_content e False p of
             Some response \<Rightarrow> (Some (response_text response), [(True, p), (False, p)])
           | None \<Rightarrow> (None, [(True, p), (False, p)])))"

text \<open>What becomes of a row in the loop of \<^verbatim>\<open>generate_ai_explanations\<close> (lines 818 to
  1076): it is passed over for its category, or for want of a correct answer, or for a
  reply that does not parse (the reply is kept for display); an exception, that of the
  parser included, ends its turn at the \<^verbatim>\<open>except Exception\<close> of the loop body (line
  1071); or its document is written to \<^verbatim>\<open>explanation_ai\<close>. Only \<open>Written\<close> stores a
  document.\<close>

datatype outcome =
  Skipped string | NoCorrectAnswer | Unparseable string | Failed | Written string

record row_result =
  outcome :: outcome
  calls :: "(bool \<times> string) list"

definition retry_prompt :: "string \<Rightarrow> string" where
  "retry_prompt p =
     p @ [CHR 0x0A, CHR 0x0A] @ ''PERBAIKI: Outputkan JSON valid dan ''
       @ ''minimal 4 detail_paragraphs yang berbeda.''"

definition finish_row :: "env \<Rightarrow> row \<Rightarrow> json \<Rightarrow> (bool \<times> string) list \<Rightarrow> row_result" where
  "finish_row e r data cs =
     \<lparr> outcome = (case assemble e r data of Some document \<Rightarrow> Written document | None \<Rightarrow> Failed),
       calls = cs \<rparr>"

text \<open>Lines 885 to 915: the second request for a numeric row with too few paragraphs.\<close>

definition numeric_retry :: "env \<Rightarrow> row \<Rightarrow> string \<Rightarrow> json \<Rightarrow> (bool \<times> string) list \<Rightarrow> row_result"
  where
  "numeric_retry e r p data cs =
     (case dict_get data ''detail_paragraphs'' of
        None \<Rightarrow> \<lparr> outcome = Failed, calls = cs \<rparr>
      | Some v \<Rightarrow>
          (case normalize_detail_paragraphs e v of
             None \<Rightarrow> \<lparr> outcome = Failed, calls = cs \<rparr>
           | Some paragraphs \<Rightarrow>
               (let candidate_paragraphs = dedupe_paragraphs paragraphs
                in if length candidate_paragraphs < MIN_NUMERIC_PARAGRAPHS then
                     (case request e (retry_prompt p) of
                        (None, cs2) \<Rightarrow> \<lparr> outcome = Failed, calls = cs @ cs2 \<rparr>
                      | (Some retry_text, cs2) \<Rightarrow>
                          (case parse_response e retry_text of
                             Raises x \<Rightarrow> \<lparr> outcome = Failed, calls = cs @ cs2 \<rparr>
                           | Returns (Some retry_data) \<Rightarrow> finish_row e r retry_data (cs @ cs2)
                           | Returns None \<Rightarrow> finish_row e r data (cs @ cs2)))
                   else finish_row e r data cs)))"

definition process_row :: "env \<Rightarrow> row \<Rightarrow> row_result" where
  "process_row e r =
     (case should_skip_row (category r) (sub_category r) of
        Some skip_reason \<Rightarrow> \<lparr> outcome = Skipped skip_reason, calls = [] \<rparr>
      | None \<Rightarrow>
          (let prompt_data = build_prompt e r;
               p = pd_prompt prompt_data;
               (correct, incorrect) = ordered_indices e r
           in if correct = [] then \<lparr> outcome = NoCorrectAnswer, calls = [] \<rparr>
              else
                (case request e p of
                   (None, cs) \<Rightarrow> \<lparr> outcome = Failed, calls = cs \<rparr>
                 | (Some raw_text, cs) \<Rightarrow>
                     (case parse_response e raw_text of
                        Raises x \<Rightarrow> \<lparr> outcome = Failed, calls = cs \<rparr>
                      | Returns None \<Rightarrow> \<lparr> outcome = Unparseable raw_text, calls = cs \<rparr>
                      | Returns (Some data) \<Rightarrow>
                          if is_tiu_numerik (category r) (sub_category r)
                          then numeric_retry e r p data cs
                          else finish_row e r data cs))))"

section \<open>Notions used in the statements\<close>

text \<open>The definitions of this section are not functions of the program: they name parts
  of its functions, or say what a statement is about.\<close>

text \<open>The text that \<^verbatim>\<open>_enrich_reason\<close> hands to its final \<^verbatim>\<open>strip\<close>.\<close>

definition enrich_cleaned :: "string \<Rightarrow> string" where
  "enrich_cleaned reason =
     (let stripped = py_strip reason
      in if stripped \<noteq> [] \<and> \<not> ends_sentence stripped then stripped @ ''.'' else stripped)"

definition needs_supplement :: "string \<Rightarrow> bool" where
  "needs_supplement cleaned_reason =
     (py_count cleaned_reason CHR ''.'' + py_count cleaned_reason CHR ''!''
        + py_count cleaned_reason CHR ''?'' < 2
      \<or> length (py_split cleaned_reason) < 25)"

definition supplement_text :: "string \<Rightarrow> string \<Rightarrow> string" where
  "supplement_text option_text correct_text =
     (if option_text \<noteq> [] \<and> correct_text \<noteq> [] then
        ''penjelasan ini masih menyoroti '' @ option_text
          @ '' tanpa mengaitkannya dengan inti soal mengenai '' @ correct_text @ ''.''
      else if correct_text \<noteq> [] then
        ''penjelasan ini belum menunjukkan keterkaitan dengan tuntutan soal tentang ''
          @ correct_text @ ''.''
      else
        ''penjelasan perlu menyebutkan secara spesifik mengapa pilihan ini tidak memenuhi kebutuhan soal.'')"

text \<open>An environment for concrete rows: texts without character references, so that
  \<^verbatim>\<open>html.unescape\<close> returns its argument; a parser that rejects with a decode error
  and a service that returns nothing, for the properties that never call them.\<close>

definition plain_env :: env where
  "plain_env =
     \<lparr> html_unescape = (\<lambda>s. s), json_loads = (\<lambda>s. Raises JSONDecodeError), repr_json = (\<lambda>j. []),
       prompt_text = (\<lambda>r. []), generate_content = (\<lambda>with_config p. None),
       assemble = (\<lambda>r j. None) \<rparr>"

text \<open>A row with nothing in it, to be filled in.\<close>

definition empty_row :: row where
  "empty_row =
     \<lparr> category = NaN, sub_category = NaN, question = NaN, answer_header_true = NaN,
       option_a_text = NaN, option_a_score = None, option_b_text = NaN, option_b_score = None,
       option_c_text = NaN, option_c_score = None, option_d_text = NaN, option_d_score = None,
       option_e_text = NaN, option_e_score = None, option_number = NaN,
       option_number_score = None, explanation = NaN, explanation_ai = NaN \<rparr>"

text \<open>The score of an option as the order of the indices reads it, a missing score
  being minus infinity, and the order the two lists are to be in: by descending score,
  an equal score by ascending index.\<close>

definition score_of :: "real option list \<Rightarrow> nat \<Rightarrow> pyfloat" where
  "score_of scores idx =
     (if idx < length scores then (case scores ! idx of Some x \<Rightarrow> Finite x | None \<Rightarrow> MinusInf)
      else MinusInf)"

definition comes_before :: "real option list \<Rightarrow> nat \<Rightarrow> nat \<Rightarrow> bool" where
  "comes_before scores a b =
     (float_lt (score_of scores b) (score_of scores a)
      \<or> (score_of scores a = score_of scores b \<and> a < b))"

text \<open>A scored row: five options, of which the fifth has a blank text and the fourth no
  score; the third has the highest score.\<close>

definition tkp_row :: row where
  "tkp_row = empty_row
     \<lparr> category := Txt ''TKP'',
       option_a_text := Txt ''Menegur rekan'', option_a_score := Some 1,
       option_b_text := Txt ''Diam saja'', option_b_score := Some 3,
       option_c_text := Txt ''<p>Melapor ke atasan</p>'', option_c_score := Some 5,
       option_d_text := Txt ''Pergi'', option_d_score := None,
       option_e_text := Txt ''  '', option_e_score := Some 4 \<rparr>"

text \<open>The option at index \<open>i\<close> has the score \<open>s\<close>, and every other option of the
  list that has a score has a smaller one.\<close>

definition strict_max_at :: "real option list \<Rightarrow> nat \<Rightarrow> real \<Rightarrow> bool" where
  "strict_max_at scores i s =
     (i < length scores \<and> scores ! i = Some s
      \<and> (\<forall>j<length scores. j \<noteq> i \<longrightarrow> (\<forall>v. scores ! j = Some v \<longrightarrow> v < s)))"

text \<open>The row of the scenario of the specification (Paris with score 10, Lyon with
  score 2), with a chosen option B that carries the score 20.\<close>

definition paris_row :: row where
  "paris_row = empty_row
     \<lparr> option_a_text := Txt ''Paris'', option_a_score := Some 10,
       option_b_text := Txt ''Lyon'', option_b_score := Some 2,
       option_number := Txt ''B'', option_number_score := Some 20 \<rparr>"

text \<open>The entry of one score column in \<^verbatim>\<open>scored_options\<close>.\<close>

fun opt_entry :: "nat \<Rightarrow> real option \<Rightarrow> (nat \<times> real) list" where
  "opt_entry idx None = []"
| "opt_entry idx (Some v) = [(idx, v)]"

text \<open>The texts that \<^verbatim>\<open>_parse_response\<close> hands to the parser, in order, and what
  comes of trying them in turn: the value of the first that parses, the first exception
  that is no decode error, or \<open>None\<close> when each ends in a decode error.\<close>

definition parse_attempts :: "string \<Rightarrow> string list" where
  "parse_attempts raw_text =
     [raw_text, repair_json_text raw_text]
       @ (case (py_find CHR ''{'' raw_text, py_rfind CHR ''}'' raw_text) of
            (Some start, Some end) \<Rightarrow>
              if end > start
              then [take (end + 1 - start) (drop start raw_text),
                    repair_json_text (take (end + 1 - start) (drop start raw_text))]
              else []
          | _ \<Rightarrow> [])"

fun first_success :: "env \<Rightarrow> string list \<Rightarrow> json option raising" where
  "first_success e [] = Returns None"
| "first_success e (t # ts) =
     (case json_loads e t of
        Returns parsed \<Rightarrow> Returns (loaded parsed)
      | Raises x \<Rightarrow> if x = JSONDecodeError then first_success e ts else Raises x)"

text \<open>A row of an excluded sub-category, and an environment whose service answers in
  prose.\<close>

definition figural_row :: row where
  "figural_row = empty_row \<lparr> category := Txt '' TIU'', sub_category := Txt ''Figural  Analogi'',
     option_a_text := Txt ''Gambar 1'', option_a_score := Some 5 \<rparr>"

definition chatty_env :: env where
  "chatty_env = plain_env \<lparr> prompt_text := (\<lambda>r. ''Soal''),
     generate_content := (\<lambda>with_config p. Some (Some '' Maaf, saya tidak bisa. '')) \<rparr>"




text \<open>\<^verbatim>\<open>json.loads\<close> of CPython, with the recursion limit it starts with, raises
  \<^verbatim>\<open>RecursionError\<close> on a text that opens a thousand arrays. The environment below has
  this much of it; on any other text its parser rejects with a decode error.\<close>

definition deep_env :: env where
  "deep_env = plain_env \<lparr>
     json_loads := (\<lambda>s. if take 1000 s = replicate 1000 CHR ''[''
                         then Raises RecursionError else Raises JSONDecodeError) \<rparr>"

text \<open>A text whose string literals are well formed, as those of a JSON text are: outside
  a literal there is no backslash; inside, a backslash comes with one of the escape
  characters after it, and there is no raw line feed or carriage return. The flag says
  whether the text starts inside a literal.\<close>

fun strings_ok :: "bool \<Rightarrow> string \<Rightarrow> bool" where
  "strings_ok in_string [] = True"
| "strings_ok False (c # cs) =
     (if c = CHR 0x22 then strings_ok True cs else c \<noteq> CHR 0x5C \<and> strings_ok False cs)"
| "strings_ok True [c] = (c \<noteq> CHR 0x5C \<and> c \<noteq> CHR 0x0A \<and> c \<noteq> CHR 0x0D)"
| "strings_ok True (c # d # ds) =
     (if c = CHR 0x22 then strings_ok False (d # ds)
      else if c = CHR 0x5C then d \<in> set escape_chars \<and> strings_ok True ds
      else c \<noteq> CHR 0x0A \<and> c \<noteq> CHR 0x0D \<and> strings_ok True (d # ds))"

text \<open>The same text with some of the escapes \<^verbatim>\<open>\n\<close> inside its literals replaced by a
  raw line feed: the list of choices says, for each such escape in turn, whether it is
  replaced.\<close>

fun loosen :: "bool list \<Rightarrow> bool \<Rightarrow> string \<Rightarrow> string" where
  "loosen choices in_string [] = []"
| "loosen choices False (c # cs) = c # loosen choices (c = CHR 0x22) cs"
| "loosen choices True [c] = [c]"
| "loosen choices True (c # d # ds) =
     (if c = CHR 0x22 then c # loosen choices False (d # ds)
      else if c = CHR 0x5C then
        (if d = CHR ''n'' then
           (case choices of
              [] \<Rightarrow> c # d # loosen [] True ds
            | choice # rest \<Rightarrow>
                if choice then CHR 0x0A # loosen rest True ds else c # d # loosen rest True ds)
         else c # d # loosen choices True ds)
      else c # loosen choices True (d # ds))"

text \<open>The number of backslashes at the end of a text.\<close>

definition trailing :: "string \<Rightarrow> nat" where
  "trailing pre = count_backslashes pre (length pre)"

text \<open>A reply with one string value of two lines, its line break escaped, and an
  environment whose parser accepts this reply alone.\<close>

definition two_line_reply :: string where
  "two_line_reply =
     ''{'' @ [CHR 0x22] @ ''correct_summary'' @ [CHR 0x22] @ '': '' @ [CHR 0x22]
       @ ''12'' @ [CHR 0x5C] @ ''ndua belas'' @ [CHR 0x22] @ ''}''"

definition two_line_env :: env where
  "two_line_env = plain_env \<lparr>
     json_loads := (\<lambda>s. if s = two_line_reply
                         then Returns (JObj [(''correct_summary'', JStr (''12'' @ [CHR 0x0A] @ ''dua belas''))])
                         else Raises JSONDecodeError) \<rparr>"

chapter \<open>Properties\<close>

section \<open>Facts about the string primitives\<close>

lemma dropWhile_keeps_last:
  "xs \<noteq> [] \<Longrightarrow> \<not> P (last xs) \<Longrightarrow> dropWhile P xs \<noteq> [] \<and> last (dropWhile P xs) = last xs"
  by (induction xs) auto

lemma py_rstrip_id: "s = [] \<or> \<not> py_isspace (last s) \<Longrightarrow> py_rstrip s = s"
  by (cases s rule: rev_cases) (auto simp: py_rstrip_def)

lemma py_lstrip_id: "s = [] \<or> \<not> py_isspace (hd s) \<Longrightarrow> py_lstrip s = s"
  by (cases s) (auto simp: py_lstrip_def)

lemma py_strip_keeps_last:
  assumes "s \<noteq> []" "\<not> py_isspace (last s)"
  shows "py_strip s \<noteq> [] \<and> last (py_strip s) = last s"
  using dropWhile_keeps_last[of s py_isspace] py_rstrip_id[of s] assms
  by (simp add: py_strip_def py_lstrip_def)

lemma py_endswith_single: "py_endswith s [c] = (s \<noteq> [] \<and> last s = c)"
  by (cases s rule: rev_cases) (auto simp: py_endswith_def)

lemma ends_sentence_iff:
  "ends_sentence s = (s \<noteq> [] \<and> last s \<in> {CHR ''.'', CHR ''!'', CHR ''?''})"
  by (auto simp: ends_sentence_def py_endswith_single)

lemma sentence_mark_not_space: "c \<in> {CHR ''.'', CHR ''!'', CHR ''?''} \<Longrightarrow> \<not> py_isspace c"
  by (auto simp: py_isspace_def)

text \<open>What \<^verbatim>\<open>strip\<close> returns has no whitespace at either end, and stripping it again
  changes nothing.\<close>

lemma hd_dropWhile_not: "dropWhile P xs \<noteq> [] \<Longrightarrow> \<not> P (hd (dropWhile P xs))"
  by (induction xs) auto

lemma py_rstrip_last: "py_rstrip s \<noteq> [] \<Longrightarrow> \<not> py_isspace (last (py_rstrip s))"
  unfolding py_rstrip_def
  by (metis hd_dropWhile_not last_rev rev_is_Nil_conv rev_rev_ident)

lemma last_dropWhile: "dropWhile P xs \<noteq> [] \<Longrightarrow> last (dropWhile P xs) = last xs"
  by (induction xs) (auto split: if_splits)

lemma py_strip_ends:
  assumes "py_strip s \<noteq> []"
  shows "\<not> py_isspace (hd (py_strip s))" and "\<not> py_isspace (last (py_strip s))"
proof -
  show "\<not> py_isspace (hd (py_strip s))"
    using assms hd_dropWhile_not[of py_isspace "py_rstrip s"] by (simp add: py_strip_def py_lstrip_def)
  have ne: "py_rstrip s \<noteq> []" using assms by (auto simp: py_strip_def py_lstrip_def)
  have "last (py_strip s) = last (py_rstrip s)"
    using assms last_dropWhile[of py_isspace "py_rstrip s"] by (simp add: py_strip_def py_lstrip_def)
  then show "\<not> py_isspace (last (py_strip s))"
    using py_rstrip_last[OF ne] by simp
qed

lemma py_strip_fixed:
  assumes "s = [] \<or> (\<not> py_isspace (hd s) \<and> \<not> py_isspace (last s))"
  shows "py_strip s = s"
  using assms py_rstrip_id[of s] py_lstrip_id[of s] by (auto simp: py_strip_def)

lemma py_strip_Nil: "py_strip [] = []"
  by (simp add: py_strip_def py_lstrip_def py_rstrip_def)

lemma py_strip_idem: "py_strip (py_strip s) = py_strip s"
  using py_strip_ends[of s] py_strip_fixed[of "py_strip s"] by blast

section \<open>Enrichment of a reason\<close>

lemma enrich_reason_unfold:
  "enrich_reason ot r ct qs =
     py_strip (if needs_supplement (enrich_cleaned r)
               then (if enrich_cleaned r \<noteq> [] \<and> \<not> py_endswith (enrich_cleaned r) '' ''
                     then enrich_cleaned r @ '' '' else enrich_cleaned r) @ supplement_text ot ct
               else enrich_cleaned r)"
proof -
  have j: "\<And>x. py_join '' '' [x] = x" by simp
  show ?thesis
  proof (cases "needs_supplement (enrich_cleaned r)")
    case True
    then show ?thesis
      unfolding enrich_reason_def enrich_cleaned_def needs_supplement_def supplement_text_def Let_def
      apply (simp only: if_True)
      apply (simp only: if_distrib[of "\<lambda>xs. xs \<noteq> []"] if_distrib[of "py_join '' ''"] j list.simps not_False_eq_True if_cancel if_True)
      done
  next
    case False
    then show ?thesis
      unfolding enrich_reason_def enrich_cleaned_def needs_supplement_def supplement_text_def Let_def
      apply (simp only: if_False)
      apply (simp only: list.simps simp_thms if_False)
      done
  qed
qed

lemma supplement_text_last:
  "supplement_text ot ct \<noteq> [] \<and> last (supplement_text ot ct) = CHR ''.''"
  by (simp add: supplement_text_def)

lemma enrich_cleaned_ends: "enrich_cleaned r = [] \<or> ends_sentence (enrich_cleaned r)"
  by (auto simp: enrich_cleaned_def Let_def ends_sentence_iff)

lemma enrich_cleaned_stripped: "py_strip (enrich_cleaned r) = enrich_cleaned r"
proof (cases "py_strip r = []")
  case True
  then show ?thesis by (simp add: enrich_cleaned_def py_strip_Nil)
next
  case False
  have "\<not> py_isspace (hd (py_strip r))" using py_strip_ends(1)[OF False] .
  moreover have "\<not> py_isspace (last (py_strip r))" using py_strip_ends(2)[OF False] .
  ultimately show ?thesis
    using False
    by (auto simp: enrich_cleaned_def Let_def py_isspace_def intro!: py_strip_fixed)
qed

lemma enrich_reason_no_supplement:
  "\<not> needs_supplement (enrich_cleaned r) \<Longrightarrow> enrich_reason ot r ct qs = enrich_cleaned r"
  using enrich_cleaned_stripped[of r] by (simp add: enrich_reason_unfold)

lemma enrich_reason_supplement:
  assumes "needs_supplement (enrich_cleaned r)"
  shows "enrich_reason ot r ct qs \<noteq> [] \<and> last (enrich_reason ot r ct qs) = CHR ''.''"
proof -
  define lead where "lead = (if enrich_cleaned r \<noteq> [] \<and> \<not> py_endswith (enrich_cleaned r) '' ''
                     then enrich_cleaned r @ '' '' else enrich_cleaned r)"
  have e: "enrich_reason ot r ct qs = py_strip (lead @ supplement_text ot ct)"
    using assms unfolding lead_def by (simp only: enrich_reason_unfold if_True)
  have "lead @ supplement_text ot ct \<noteq> []"
    and "last (lead @ supplement_text ot ct) = CHR ''.''"
    using supplement_text_last[of ot ct] by simp_all
  then show ?thesis
    using py_strip_keeps_last[of "lead @ supplement_text ot ct"] e
    by (simp add: py_isspace_def)
qed

lemma not_needs_supplement_nonempty: "\<not> needs_supplement s \<Longrightarrow> s \<noteq> []"
  by (auto simp: needs_supplement_def py_count_def)

lemma enrich_reason_shape:
  "enrich_reason option_text reason correct_text question_summary \<noteq> []
   \<and> ends_sentence (enrich_reason option_text reason correct_text question_summary)"
proof (cases "needs_supplement (enrich_cleaned reason)")
  case True
  then show ?thesis
    using enrich_reason_supplement[OF True, of option_text correct_text question_summary]
    by (simp add: ends_sentence_iff)
next
  case False
  then show ?thesis
    using enrich_reason_no_supplement[OF False, of option_text correct_text question_summary]
      not_needs_supplement_nonempty[OF False] enrich_cleaned_ends[of reason]
    by simp
qed

text \<open>C10. Whatever the option text, the reason (the empty one too), the text of the
  correct option and the summary of the question are, \<^verbatim>\<open>_enrich_reason\<close> returns
  a text that is not empty and ends with a full stop, an exclamation mark or a question
  mark.\<close>

theorem enrich_reason_nonempty_terminated:
  "enrich_reason option_text reason correct_text question_summary \<noteq> []
   \<and> ends_sentence (enrich_reason option_text reason correct_text question_summary)"
  by (rule enrich_reason_shape)

theorem enrich_reason_nonempty_terminated_witness:
  "enrich_reason ''Lyon'' [] ''Paris'' ''Ibu kota Prancis?'' \<noteq> []
   \<and> ends_sentence (enrich_reason ''Lyon'' [] ''Paris'' ''Ibu kota Prancis?'')"
  using enrich_reason_nonempty_terminated[of "''Lyon''" "[]" "''Paris''" "''Ibu kota Prancis?''"]
  by simp

section \<open>The three steps on a reason, one by one\<close>

declare strip_prefix_loop.simps [simp del] echo_loop.simps [simp del]

lemma strip_prefix_loop_fixed: "prefix_round s = s \<Longrightarrow> strip_prefix_loop s = s"
  by (subst strip_prefix_loop.simps) simp

lemma prefix_round_strip_prefix_loop: "prefix_round (strip_prefix_loop s) = strip_prefix_loop s"
proof (induction s rule: strip_prefix_loop.induct)
  case (1 cleaned)
  show ?case
  proof (cases "prefix_round cleaned = cleaned")
    case True
    then show ?thesis by (simp add: strip_prefix_loop_fixed)
  next
    case False
    then have "strip_prefix_loop cleaned = strip_prefix_loop (prefix_round cleaned)"
      by (subst strip_prefix_loop.simps) simp
    then show ?thesis using "1.IH"[OF refl] False by simp
  qed
qed

lemma py_strip_prefix_round: "py_strip (prefix_round s) = prefix_round s"
  by (simp add: prefix_round_def py_strip_idem)

lemma py_strip_strip_prefix_loop:
  "py_strip s = s \<Longrightarrow> py_strip (strip_prefix_loop s) = strip_prefix_loop s"
proof (induction s rule: strip_prefix_loop.induct)
  case (1 cleaned)
  show ?case
  proof (cases "prefix_round cleaned = cleaned")
    case True
    then show ?thesis using "1.prems" by (simp add: strip_prefix_loop_fixed)
  next
    case False
    then have "strip_prefix_loop cleaned = strip_prefix_loop (prefix_round cleaned)"
      by (subst strip_prefix_loop.simps) simp
    then show ?thesis using "1.IH"[OF refl] False py_strip_prefix_round by simp
  qed
qed

lemma strip_reason_prefix_idem:
  "strip_reason_prefix (strip_reason_prefix r) = strip_reason_prefix r"
  unfolding strip_reason_prefix_def
  by (simp add: py_strip_strip_prefix_loop py_strip_idem strip_prefix_loop_fixed
      prefix_round_strip_prefix_loop)

lemma py_strip_echo_trim: "py_strip (echo_trim oc c) = echo_trim oc c"
  by (simp add: echo_trim_def py_strip_idem)

lemma echo_loop_stop:
  "option_clean = [] \<or> \<not> py_startswith (py_lower c) (py_lower option_clean)
     \<Longrightarrow> echo_loop option_clean c = c"
  by (subst echo_loop.simps) simp

lemma not_startswith_Nil: "p \<noteq> [] \<Longrightarrow> \<not> py_startswith (py_lower []) (py_lower p)"
  by (simp add: py_startswith_def py_lower_def)

lemma echo_loop_result:
  "py_strip c = c \<Longrightarrow>
     py_strip (echo_loop oc c) = echo_loop oc c \<and> echo_loop oc (echo_loop oc c) = echo_loop oc c"
proof (induction oc c rule: echo_loop.induct)
  case (1 option_clean cleaned_reason)
  show ?case
  proof (cases "option_clean = [] \<or> \<not> py_startswith (py_lower cleaned_reason) (py_lower option_clean)")
    case True
    then show ?thesis using "1.prems" by (simp add: echo_loop_stop)
  next
    case False
    show ?thesis
    proof (cases "echo_trim option_clean cleaned_reason = []")
      case True
      then have "echo_loop option_clean cleaned_reason = []"
        using False by (subst echo_loop.simps) simp
      then show ?thesis
        using False not_startswith_Nil[of option_clean]
        by (simp add: echo_loop_stop py_strip_Nil)
    next
      case ne: False
      have "echo_loop option_clean cleaned_reason
              = echo_loop option_clean (echo_trim option_clean cleaned_reason)"
        using False ne by (subst echo_loop.simps) (simp add: Let_def)
      then show ?thesis
        using "1.IH"[OF False refl ne] py_strip_echo_trim by simp
    qed
  qed
qed

lemma strip_option_echo_idem:
  "strip_option_echo (strip_option_echo r ot) ot = strip_option_echo r ot"
  using echo_loop_result[of "py_strip r" "py_strip ot"]
  by (simp add: strip_option_echo_def Let_def py_strip_idem)

lemma enrich_cleaned_enrich_reason:
  "enrich_cleaned (enrich_reason ot r ct qs) = enrich_reason ot r ct qs"
proof -
  have "py_strip (enrich_reason ot r ct qs) = enrich_reason ot r ct qs"
    by (simp add: enrich_reason_unfold py_strip_idem)
  then show ?thesis
    using enrich_reason_shape[of ot r ct qs] by (simp add: enrich_cleaned_def)
qed

lemma enrich_reason_idem:
  "\<not> needs_supplement (enrich_reason ot r ct qs) \<Longrightarrow>
     enrich_reason ot' (enrich_reason ot r ct qs) ct' qs' = enrich_reason ot r ct qs"
  using enrich_reason_no_supplement[of "enrich_reason ot r ct qs" ot' ct' qs']
  by (simp add: enrich_cleaned_enrich_reason)

text \<open>The three steps on the reason \<^verbatim>\<open>Lyon bukan ibu kota Prancis.\<close> of the
  option \<^verbatim>\<open>Lyon\<close>, where \<^verbatim>\<open>Paris\<close> is correct, evaluated step by step: the first
  run, the second run on its output and the third run on the output of the second.\<close>

lemmas string_eval = py_strip_def py_lstrip_def py_rstrip_def py_lstrip_chars_def py_isspace_def
  py_lower_def py_lower_char_def char_of_def bit_Suc_0_iff Let_def py_startswith_def
  py_endswith_def ends_sentence_def py_count_def py_split_def

lemma run1:
  "normalize_reason ''Lyon'' ''Paris'' ''Ibu kota Prancis?'' ''Lyon bukan ibu kota Prancis.'' = ''bukan ibu kota Prancis. penjelasan ini masih menyoroti Lyon tanpa mengaitkannya dengan inti soal mengenai Paris.''"
proof -
  have "strip_reason_prefix ''Lyon bukan ibu kota Prancis.'' = ''Lyon bukan ibu kota Prancis.''" by code_simp
  moreover have "strip_option_echo ''Lyon bukan ibu kota Prancis.'' ''Lyon'' = ''bukan ibu kota Prancis.''" by code_simp
  moreover have "enrich_reason ''Lyon'' ''bukan ibu kota Prancis.'' ''Paris'' ''Ibu kota Prancis?'' = ''bukan ibu kota Prancis. penjelasan ini masih menyoroti Lyon tanpa mengaitkannya dengan inti soal mengenai Paris.''"
    by (simp add: enrich_reason_def string_eval)
  ultimately show ?thesis by (simp only: normalize_reason_def)
qed

lemma run2:
  "normalize_reason ''Lyon'' ''Paris'' ''Ibu kota Prancis?'' ''bukan ibu kota Prancis. penjelasan ini masih menyoroti Lyon tanpa mengaitkannya dengan inti soal mengenai Paris.'' = ''bukan ibu kota Prancis. penjelasan ini masih menyoroti Lyon tanpa mengaitkannya dengan inti soal mengenai Paris. penjelasan ini masih menyoroti Lyon tanpa mengaitkannya dengan inti soal mengenai Paris.''"
proof -
  have "strip_reason_prefix ''bukan ibu kota Prancis. penjelasan ini masih menyoroti Lyon tanpa mengaitkannya dengan inti soal mengenai Paris.'' = ''bukan ibu kota Prancis. penjelasan ini masih menyoroti Lyon tanpa mengaitkannya dengan inti soal mengenai Paris.''" by code_simp
  moreover have "strip_option_echo ''bukan ibu kota Prancis. penjelasan ini masih menyoroti Lyon tanpa mengaitkannya dengan inti soal mengenai Paris.'' ''Lyon'' = ''bukan ibu kota Prancis. penjelasan ini masih menyoroti Lyon tanpa mengaitkannya dengan inti soal mengenai Paris.''" by code_simp
  moreover have "enrich_reason ''Lyon'' ''bukan ibu kota Prancis. penjelasan ini masih menyoroti Lyon tanpa mengaitkannya dengan inti soal mengenai Paris.'' ''Paris'' ''Ibu kota Prancis?'' = ''bukan ibu kota Prancis. penjelasan ini masih menyoroti Lyon tanpa mengaitkannya dengan inti soal mengenai Paris. penjelasan ini masih menyoroti Lyon tanpa mengaitkannya dengan inti soal mengenai Paris.''"
    by (simp add: enrich_reason_def string_eval)
  ultimately show ?thesis by (simp only: normalize_reason_def)
qed

lemma run3:
  "strip_reason_prefix ''bukan ibu kota Prancis. penjelasan ini masih menyoroti Lyon tanpa mengaitkannya dengan inti soal mengenai Paris. penjelasan ini masih menyoroti Lyon tanpa mengaitkannya dengan inti soal mengenai Paris.'' = ''bukan ibu kota Prancis. penjelasan ini masih menyoroti Lyon tanpa mengaitkannya dengan inti soal mengenai Paris. penjelasan ini masih menyoroti Lyon tanpa mengaitkannya dengan inti soal mengenai Paris.''" "strip_option_echo ''bukan ibu kota Prancis. penjelasan ini masih menyoroti Lyon tanpa mengaitkannya dengan inti soal mengenai Paris. penjelasan ini masih menyoroti Lyon tanpa mengaitkannya dengan inti soal mengenai Paris.'' ''Lyon'' = ''bukan ibu kota Prancis. penjelasan ini masih menyoroti Lyon tanpa mengaitkannya dengan inti soal mengenai Paris. penjelasan ini masih menyoroti Lyon tanpa mengaitkannya dengan inti soal mengenai Paris.''" "\<not> needs_supplement ''bukan ibu kota Prancis. penjelasan ini masih menyoroti Lyon tanpa mengaitkannya dengan inti soal mengenai Paris. penjelasan ini masih menyoroti Lyon tanpa mengaitkannya dengan inti soal mengenai Paris.''"
proof -
  show "strip_reason_prefix ''bukan ibu kota Prancis. penjelasan ini masih menyoroti Lyon tanpa mengaitkannya dengan inti soal mengenai Paris. penjelasan ini masih menyoroti Lyon tanpa mengaitkannya dengan inti soal mengenai Paris.'' = ''bukan ibu kota Prancis. penjelasan ini masih menyoroti Lyon tanpa mengaitkannya dengan inti soal mengenai Paris. penjelasan ini masih menyoroti Lyon tanpa mengaitkannya dengan inti soal mengenai Paris.''" by code_simp
  show "strip_option_echo ''bukan ibu kota Prancis. penjelasan ini masih menyoroti Lyon tanpa mengaitkannya dengan inti soal mengenai Paris. penjelasan ini masih menyoroti Lyon tanpa mengaitkannya dengan inti soal mengenai Paris.'' ''Lyon'' = ''bukan ibu kota Prancis. penjelasan ini masih menyoroti Lyon tanpa mengaitkannya dengan inti soal mengenai Paris. penjelasan ini masih menyoroti Lyon tanpa mengaitkannya dengan inti soal mengenai Paris.''" by code_simp
  show "\<not> needs_supplement ''bukan ibu kota Prancis. penjelasan ini masih menyoroti Lyon tanpa mengaitkannya dengan inti soal mengenai Paris. penjelasan ini masih menyoroti Lyon tanpa mengaitkannya dengan inti soal mengenai Paris.''" by (simp add: needs_supplement_def string_eval)
qed

text \<open>C8, as the code has it. The claim is that the three steps, run on their own
  output, change nothing. They do: a reason that stays below two sentence marks or 25
  words after enrichment is enriched again on the second run (the counterexample below).
  What holds is that each step is idempotent on its own: prefix stripping and echo
  stripping always, enrichment when its output has at least two sentence marks and at
  least 25 words; and the three steps together return a text unchanged when it is such
  an output and the two stripping steps leave it as it is.\<close>

theorem reason_steps_idempotent:
  "strip_reason_prefix (strip_reason_prefix reason) = strip_reason_prefix reason
   \<and> strip_option_echo (strip_option_echo reason option_text) option_text
       = strip_option_echo reason option_text
   \<and> (\<not> needs_supplement (enrich_reason option_text reason correct_text question_summary)
        \<longrightarrow> enrich_reason option_text
              (enrich_reason option_text reason correct_text question_summary)
              correct_text question_summary
            = enrich_reason option_text reason correct_text question_summary)
   \<and> (strip_reason_prefix (normalize_reason option_text correct_text question_summary reason)
          = normalize_reason option_text correct_text question_summary reason
        \<and> strip_option_echo (normalize_reason option_text correct_text question_summary reason)
            option_text
          = normalize_reason option_text correct_text question_summary reason
        \<and> \<not> needs_supplement (normalize_reason option_text correct_text question_summary reason)
        \<longrightarrow> normalize_reason option_text correct_text question_summary
              (normalize_reason option_text correct_text question_summary reason)
            = normalize_reason option_text correct_text question_summary reason)"
proof (intro conjI impI)
  show "strip_reason_prefix (strip_reason_prefix reason) = strip_reason_prefix reason"
    by (rule strip_reason_prefix_idem)
  show "strip_option_echo (strip_option_echo reason option_text) option_text
          = strip_option_echo reason option_text"
    by (rule strip_option_echo_idem)
  show "enrich_reason option_text
              (enrich_reason option_text reason correct_text question_summary)
              correct_text question_summary
            = enrich_reason option_text reason correct_text question_summary"
    if "\<not> needs_supplement (enrich_reason option_text reason correct_text question_summary)"
    using that by (rule enrich_reason_idem)
  show "normalize_reason option_text correct_text question_summary
              (normalize_reason option_text correct_text question_summary reason)
            = normalize_reason option_text correct_text question_summary reason"
    if h: "strip_reason_prefix (normalize_reason option_text correct_text question_summary reason)
          = normalize_reason option_text correct_text question_summary reason
        \<and> strip_option_echo (normalize_reason option_text correct_text question_summary reason)
            option_text
          = normalize_reason option_text correct_text question_summary reason
        \<and> \<not> needs_supplement (normalize_reason option_text correct_text question_summary reason)"
  proof -
    define y where "y = normalize_reason option_text correct_text question_summary reason"
    have y: "y = enrich_reason option_text
                   (strip_option_echo (strip_reason_prefix reason) option_text)
                   correct_text question_summary"
      by (simp add: y_def normalize_reason_def)
    have h': "strip_reason_prefix y = y" "strip_option_echo y option_text = y"
      "\<not> needs_supplement y"
      using h unfolding y_def by blast+
    have "normalize_reason option_text correct_text question_summary y
            = enrich_reason option_text y correct_text question_summary"
      unfolding normalize_reason_def[of _ _ _ y] by (simp only: h')
    also have "\<dots> = y"
      using h'(3) enrich_reason_idem[of option_text
          "strip_option_echo (strip_reason_prefix reason) option_text" correct_text
          question_summary option_text correct_text question_summary]
      unfolding y by blast
    finally show ?thesis unfolding y_def .
  qed
qed

theorem reason_steps_idempotent_witness:
  "\<not> needs_supplement (normalize_reason ''Lyon'' ''Paris'' ''Ibu kota Prancis?'' ''bukan ibu kota Prancis. penjelasan ini masih menyoroti Lyon tanpa mengaitkannya dengan inti soal mengenai Paris.'')
   \<and> normalize_reason ''Lyon'' ''Paris'' ''Ibu kota Prancis?'' (normalize_reason ''Lyon'' ''Paris'' ''Ibu kota Prancis?'' ''bukan ibu kota Prancis. penjelasan ini masih menyoroti Lyon tanpa mengaitkannya dengan inti soal mengenai Paris.'')
       = normalize_reason ''Lyon'' ''Paris'' ''Ibu kota Prancis?'' ''bukan ibu kota Prancis. penjelasan ini masih menyoroti Lyon tanpa mengaitkannya dengan inti soal mengenai Paris.''"
  using reason_steps_idempotent[of "''bukan ibu kota Prancis. penjelasan ini masih menyoroti Lyon tanpa mengaitkannya dengan inti soal mengenai Paris.''" "''Lyon''" "''Paris''" "''Ibu kota Prancis?''"] run3
  by (simp only: run2) blast

text \<open>The claim as it stands fails on this reason: the second run appends the
  supplementary sentence a second time.\<close>

theorem reason_steps_not_idempotent:
  "normalize_reason ''Lyon'' ''Paris'' ''Ibu kota Prancis?'' (normalize_reason ''Lyon'' ''Paris'' ''Ibu kota Prancis?'' ''Lyon bukan ibu kota Prancis.'')
   \<noteq> normalize_reason ''Lyon'' ''Paris'' ''Ibu kota Prancis?'' ''Lyon bukan ibu kota Prancis.''"
  by (simp only: run1 run2) simp

section \<open>Capital letters in a reason\<close>

lemma takeWhile_all_append:
  "\<forall>x\<in>set xs. P x \<Longrightarrow> ys = [] \<or> \<not> P (hd ys) \<Longrightarrow> takeWhile P (xs @ ys) = xs"
  by (cases ys) (auto simp: takeWhile_append2)

lemma dropWhile_all_append:
  "\<forall>x\<in>set xs. P x \<Longrightarrow> dropWhile P (xs @ ys) = dropWhile P ys"
  by (induction xs) auto

lemma dropWhile_hd_not: "ys = [] \<or> \<not> P (hd ys) \<Longrightarrow> dropWhile P ys = ys"
  by (cases ys) auto

lemma dropWhile_append_stop:
  "ys \<noteq> [] \<Longrightarrow> \<not> P (hd ys) \<Longrightarrow> dropWhile P (xs @ ys) = dropWhile P xs @ ys"
  by (induction xs) (auto simp: dropWhile_hd_not)

lemma takeWhile_append_stop:
  "ys \<noteq> [] \<Longrightarrow> \<not> P (hd ys) \<Longrightarrow> takeWhile P (xs @ ys) = takeWhile P xs"
  by (induction xs) (auto, cases ys, auto)

lemma py_partition_colon:
  assumes "CHR '':'' \<notin> set p"
  shows "py_partition CHR '':'' (p @ '':'' @ s) = (p, True, s)"
proof -
  have a: "\<forall>c\<in>set p. c \<noteq> CHR '':''" using assms by auto
  have "takeWhile (\<lambda>c. c \<noteq> CHR '':'') (p @ '':'' @ s) = p"
    using takeWhile_all_append[OF a, of "'':'' @ s"] by simp
  moreover have "dropWhile (\<lambda>c. c \<noteq> CHR '':'') (p @ '':'' @ s) = '':'' @ s"
    using dropWhile_all_append[OF a, of "'':'' @ s"] by simp
  ultimately show ?thesis by (simp only: py_partition_def Let_def) simp
qed

lemma py_partition_none:
  assumes "CHR '':'' \<notin> set t"
  shows "py_partition CHR '':'' t = (t, False, [])"
proof -
  have a: "\<forall>c\<in>set t. c \<noteq> CHR '':''" using assms by auto
  have "takeWhile (\<lambda>c. c \<noteq> CHR '':'') t = t" using a by (simp add: takeWhile_eq_all_conv)
  moreover have "dropWhile (\<lambda>c. c \<noteq> CHR '':'') t = []" using a by simp
  ultimately show ?thesis by (simp only: py_partition_def Let_def) simp
qed

lemma leading_space:
  assumes "ys \<noteq> []" "\<not> py_isspace (hd ys)"
  shows "py_lstrip (xs @ ys) = dropWhile py_isspace xs @ ys"
    and "length (xs @ ys) - length (py_lstrip (xs @ ys)) = length (takeWhile py_isspace xs)"
    and "take (length (takeWhile py_isspace xs)) (xs @ ys) = takeWhile py_isspace xs"
    and "drop (length (takeWhile py_isspace xs)) (xs @ ys) = dropWhile py_isspace xs @ ys"
proof -
  show l: "py_lstrip (xs @ ys) = dropWhile py_isspace xs @ ys"
    using assms by (simp add: py_lstrip_def dropWhile_append_stop)
  have x: "xs = takeWhile py_isspace xs @ dropWhile py_isspace xs" by simp
  have "length (xs @ ys) = length (takeWhile py_isspace xs) + length (dropWhile py_isspace xs @ ys)"
    by (metis x append.assoc length_append)
  then show "length (xs @ ys) - length (py_lstrip (xs @ ys)) = length (takeWhile py_isspace xs)"
    using l by simp
  have e: "xs @ ys = takeWhile py_isspace xs @ (dropWhile py_isspace xs @ ys)" by simp
  show "take (length (takeWhile py_isspace xs)) (xs @ ys) = takeWhile py_isspace xs"
    by (metis e append_eq_conv_conj)
  show "drop (length (takeWhile py_isspace xs)) (xs @ ys) = dropWhile py_isspace xs @ ys"
    by (metis e append_eq_conv_conj)
qed

lemma word_char_not_space: "is_word_char c \<Longrightarrow> \<not> py_isspace c"
  by (auto simp: is_word_char_def py_isspace_def Let_def)

lemma alpha_not_space: "py_isalpha c \<Longrightarrow> \<not> py_isspace c"
  by (auto simp: py_isalpha_def py_isspace_def Let_def)

lemma py_lower_space: "py_isspace c \<Longrightarrow> py_lower_char c = c"
  by (auto simp: py_isspace_def py_lower_char_def Let_def)

lemma lower_adalah:
  assumes "py_lower A = ''adalah ''"
  shows "length A = 7" and "A \<noteq> []" and "\<not> py_isspace (hd A)"
proof -
  have "length (py_lower A) = length ''adalah ''" using assms by simp
  then show l: "length A = 7" by (simp add: py_lower_def)
  then show ne: "A \<noteq> []" by auto
  then obtain a0 A' where A: "A = a0 # A'" by (cases A) auto
  then have "py_lower_char a0 = CHR ''a''" using assms by (simp add: py_lower_def)
  then have "\<not> py_isspace a0"
    using py_lower_space[of a0] by (auto simp: py_isspace_def)
  then show "\<not> py_isspace (hd A)" using A by simp
qed

lemma startswith_append: "py_startswith (a @ b) a"
  by (simp add: py_startswith_def)

text \<open>The branch without a colon.\<close>

lemma capital_no_colon:
  assumes w: "w \<noteq> []" "\<forall>c\<in>set w. is_word_char c" "rest = [] \<or> \<not> is_word_char (hd rest)"
    and a: "py_isalpha (hd w)"
    and lead: "\<forall>c\<in>set lead. \<not> py_isalpha c"
    and nc: "CHR '':'' \<notin> set (lead @ w @ rest)"
  shows "normalize_reason_capital (lead @ w @ rest) P =
          (if w \<in> P \<or> py_lower w = ''anda'' then lead @ w @ rest
           else lead @ py_lower [hd w] @ tl w @ rest)"
proof -
  define t where "t = lead @ w @ rest"
  define n where "n = length (takeWhile py_isspace lead)"
  define lead2 where "lead2 = dropWhile py_isspace lead"
  define working where "working = lead2 @ w @ rest"
  have wr: "w @ rest \<noteq> []" "\<not> py_isspace (hd (w @ rest))"
    using w(1) a alpha_not_space by auto
  have tne: "t \<noteq> []" using w(1) by (simp add: t_def)
  have f1: "length t - length (py_lstrip t) = n"
    unfolding t_def n_def using leading_space(2)[OF wr, of lead] by simp
  have f2: "drop n t = working"
    unfolding t_def n_def working_def lead2_def using leading_space(4)[OF wr, of lead] by simp
  have "CHR '':'' \<notin> set working"
    using nc set_dropWhileD[of _ py_isspace lead] by (auto simp: working_def lead2_def)
  then have f3: "py_partition CHR '':'' working = (working, False, [])"
    by (rule py_partition_none)
  have l2: "\<forall>c\<in>set lead2. \<not> py_isalpha c"
    using lead set_dropWhileD[of _ py_isspace lead] by (auto simp: lead2_def)
  have f4: "length (takeWhile (\<lambda>c. \<not> py_isalpha c) working) = length lead2"
    unfolding working_def using takeWhile_all_append[of lead2 "\<lambda>c. \<not> py_isalpha c" "w @ rest"] l2 w(1) a
    by simp
  have f5: "\<not> length working \<le> length lead2" using w(1) by (simp add: working_def)
  have f6: "takeWhile is_word_char (drop (length lead2) working) = w"
    unfolding working_def using takeWhile_all_append[OF w(2) w(3)] by simp
  have tl: "take n t @ lead2 = lead"
    unfolding t_def n_def lead2_def using leading_space(3)[OF wr, of lead] by simp
  have nlen: "length (take n t) = n"
    using f1 by simp
  have "t = (take n t @ lead2) @ (w @ rest)"
    using f2 append_take_drop_id[of n t] by (simp add: working_def)
  moreover have "length (take n t @ lead2) = n + length lead2"
    using nlen by simp
  ultimately have f7: "take (n + length lead2) t = lead"
    using tl by (metis append_eq_conv_conj)
  have f8: "drop (length lead2 + length w) working = rest"
    by (simp add: working_def)
  have "normalize_reason_capital t P =
          (if w \<in> P \<or> py_lower w = ''anda'' then t
           else lead @ py_lower [hd w] @ tl w @ rest)"
    unfolding normalize_reason_capital_def Let_def
    by (simp only: tne f1 f2 f3 f4 f5 f6 f7 f8 if_False prod.case simp_thms w(1) add.commute)
       (simp only: append_assoc)
  then show ?thesis unfolding t_def .
qed

text \<open>The branch with a colon that has text after it.\<close>

lemma capital_colon:
  assumes w: "w \<noteq> []" "\<forall>c\<in>set w. is_word_char c" "rest = [] \<or> \<not> is_word_char (hd rest)"
    and p: "CHR '':'' \<notin> set p"
    and sp: "\<forall>c\<in>set sp. py_isspace c"
    and A: "(A = [] \<and> \<not> py_startswith (py_lower (w @ rest)) ''adalah '') \<or> py_lower A = ''adalah ''"
  shows "normalize_reason_capital (p @ '':'' @ sp @ A @ w @ rest) P =
          p @ '':'' @ (if sp = [] then '' '' else sp)
            @ (if w \<in> P \<or> py_lower w = ''anda'' then w else py_lower w) @ rest"
proof -
  define suffix where "suffix = sp @ A @ w @ rest"
  define t where "t = p @ '':'' @ suffix"
  define n where "n = length (takeWhile py_isspace p)"
  define p2 where "p2 = dropWhile py_isspace p"
  define working where "working = p2 @ '':'' @ suffix"
  have cs: "'':'' @ suffix \<noteq> []" "\<not> py_isspace (hd ('':'' @ suffix))"
    by (simp_all add: py_isspace_def)
  have tne: "t \<noteq> []" by (simp add: t_def)
  have f1: "length t - length (py_lstrip t) = n"
    unfolding t_def n_def using leading_space(2)[OF cs, of p] by simp
  have f2: "drop n t = working"
    unfolding t_def n_def working_def p2_def using leading_space(4)[OF cs, of p] by simp
  have "CHR '':'' \<notin> set p2"
    using p set_dropWhileD[of _ py_isspace p] by (auto simp: p2_def)
  then have f3: "py_partition CHR '':'' working = (p2, True, suffix)"
    unfolding working_def by (rule py_partition_colon)
  have sne: "suffix \<noteq> []" using w(1) by (simp add: suffix_def)
  have awr: "A @ w @ rest \<noteq> []" "\<not> py_isspace (hd (A @ w @ rest))"
    using w(1) w(2) A lower_adalah(2,3)[of A] word_char_not_space[of "hd w"]
    by (auto simp: hd_append)
  have f4: "py_lstrip suffix = A @ w @ rest"
    unfolding suffix_def using leading_space(1)[OF awr, of sp] sp by simp
  have tw: "takeWhile py_isspace sp = sp" using sp by (simp add: takeWhile_eq_all_conv)
  have f5: "length suffix - length (A @ w @ rest) = length sp"
    by (simp add: suffix_def)
  have f6: "take (length sp) suffix = sp" by (simp add: suffix_def)
  have f7: "(if py_startswith (py_lower (A @ w @ rest)) ''adalah ''
             then drop (length ''adalah '') (A @ w @ rest) else A @ w @ rest) = w @ rest"
  proof (cases "A = []")
    case True
    then show ?thesis using A by (auto simp: py_lower_def)
  next
    case False
    then have l: "py_lower A = ''adalah ''" using A by auto
    have "py_lower (A @ w @ rest) = ''adalah '' @ py_lower (w @ rest)"
      using l by (simp add: py_lower_def)
    then have "py_startswith (py_lower (A @ w @ rest)) ''adalah ''"
      by (simp add: py_startswith_def)
    then show ?thesis using lower_adalah(1)[OF l] by simp
  qed
  have f8: "takeWhile is_word_char (w @ rest) = w"
    using takeWhile_all_append[OF w(2) w(3)] .
  have f9: "take n t @ p2 = p"
    unfolding t_def n_def p2_def using leading_space(3)[OF cs, of p] by simp
  have wrne: "w @ rest \<noteq> []" using w(1) by simp
  have "normalize_reason_capital t P =
          take n t @ p2 @ '':'' @ (if sp = [] then '' '' else sp)
            @ (if w \<in> P \<or> py_lower w = ''anda'' then w else py_lower w) @ rest"
    unfolding normalize_reason_capital_def Let_def
    apply (simp only: tne f1 f2 f3 sne f4 f5 f6 f7 f8 wrne w(1) if_False if_True prod.case simp_thms)
    using w(1) apply (auto simp: py_lower_def)
    done
  then show ?thesis using f9 unfolding t_def suffix_def by (metis append.assoc)
qed


text \<open>C9, as the code has it. \<^verbatim>\<open>_normalize_reason_capital\<close> never turns a letter
  into a capital. A reason is printed right after the colon of its option label, so the
  function lower-cases: in a reason without a colon, the first letter of the first word;
  in a reason with a colon followed by text, the whole first word after that colon, once
  a leading \<^verbatim>\<open>adalah\<close> is dropped. In both cases a word among the preserved tokens,
  or the word \<^verbatim>\<open>Anda\<close> in any case, is left as it is. Here \<open>w\<close> is that first
  word: a maximal run of word characters.\<close>

theorem normalize_reason_capital_lowers:
  assumes "w \<noteq> []" and "\<forall>c\<in>set w. is_word_char c"
    and "rest = [] \<or> \<not> is_word_char (hd rest)"
  shows "(py_isalpha (hd w) \<and> (\<forall>c\<in>set lead. \<not> py_isalpha c)
            \<and> CHR '':'' \<notin> set (lead @ w @ rest)
          \<longrightarrow> normalize_reason_capital (lead @ w @ rest) preserve_tokens =
                (if w \<in> preserve_tokens \<or> py_lower w = ''anda'' then lead @ w @ rest
                 else lead @ py_lower [hd w] @ tl w @ rest))
       \<and> (CHR '':'' \<notin> set p \<and> (\<forall>c\<in>set sp. py_isspace c)
            \<and> ((A = [] \<and> \<not> py_startswith (py_lower (w @ rest)) ''adalah '')
                 \<or> py_lower A = ''adalah '')
          \<longrightarrow> normalize_reason_capital (p @ '':'' @ sp @ A @ w @ rest) preserve_tokens =
                p @ '':'' @ (if sp = [] then '' '' else sp)
                  @ (if w \<in> preserve_tokens \<or> py_lower w = ''anda'' then w else py_lower w)
                  @ rest)"
  using capital_no_colon[OF assms, of lead preserve_tokens]
    capital_colon[OF assms, of p sp A preserve_tokens]
  by blast

lemma tokens_London_Paris:
  "extract_proper_tokens [''London'', ''Paris''] = {''London'', ''Paris''}"
  by (simp add: extract_proper_tokens_def is_word_char_def py_isupper_def)

theorem normalize_reason_capital_lowers_witness:
  "normalize_reason_capital ''London: Paris adalah ibu kota Inggris.''
      (extract_proper_tokens [''London'', ''Paris''])
     = ''London: Paris adalah ibu kota Inggris.''
   \<and> normalize_reason_capital ''London: Kota ini bukan ibu kota Inggris.''
      (extract_proper_tokens [''London'', ''Paris''])
     = ''London: kota ini bukan ibu kota Inggris.''
   \<and> normalize_reason_capital ''Kota ini bukan ibu kota Inggris.''
      (extract_proper_tokens [''London'', ''Paris''])
     = ''kota ini bukan ibu kota Inggris.''"
proof -
  let ?P = "extract_proper_tokens [''London'', ''Paris'']"
  have paris: "''Paris'' \<noteq> []" "\<forall>c\<in>set ''Paris''. is_word_char c"
    "'' adalah ibu kota Inggris.'' = [] \<or> \<not> is_word_char (hd '' adalah ibu kota Inggris.'')"
    by (simp_all add: is_word_char_def)
  have kota: "''Kota'' \<noteq> []" "\<forall>c\<in>set ''Kota''. is_word_char c"
    "'' ini bukan ibu kota Inggris.'' = [] \<or> \<not> is_word_char (hd '' ini bukan ibu kota Inggris.'')"
    by (simp_all add: is_word_char_def)
  have "normalize_reason_capital (''London'' @ '':'' @ '' '' @ [] @ ''Paris'' @ '' adalah ibu kota Inggris.'') ?P
          = ''London'' @ '':'' @ '' '' @ ''Paris'' @ '' adalah ibu kota Inggris.''"
    using normalize_reason_capital_lowers[OF paris, of "[]" ?P "''London''" "'' ''" "[]"]
    by (simp add: tokens_London_Paris py_isspace_def py_startswith_def string_eval)
  moreover have "normalize_reason_capital (''London'' @ '':'' @ '' '' @ [] @ ''Kota'' @ '' ini bukan ibu kota Inggris.'') ?P
          = ''London'' @ '':'' @ '' '' @ ''kota'' @ '' ini bukan ibu kota Inggris.''"
    using normalize_reason_capital_lowers[OF kota, of "[]" ?P "''London''" "'' ''" "[]"]
    by (simp add: tokens_London_Paris py_isspace_def py_startswith_def string_eval)
  moreover have "normalize_reason_capital ([] @ ''Kota'' @ '' ini bukan ibu kota Inggris.'') ?P
          = [] @ ''kota'' @ '' ini bukan ibu kota Inggris.''"
    using normalize_reason_capital_lowers[OF kota, of "[]" ?P "''London''" "'' ''" "[]"]
    by (simp add: tokens_London_Paris py_isalpha_def string_eval)
  ultimately show ?thesis by simp
qed

text \<open>The claim as it stands says that a reason that does not follow a colon gets a
  capital first letter. The function lower-cases the first letter of such a reason.\<close>

theorem normalize_reason_capital_no_capital:
  "normalize_reason_capital ''Kota ini bukan ibu kota Prancis.''
      (extract_proper_tokens [''Lyon'', ''Paris''])
     = ''kota ini bukan ibu kota Prancis.''
   \<and> \<not> py_isupper (hd (normalize_reason_capital ''Kota ini bukan ibu kota Prancis.''
      (extract_proper_tokens [''Lyon'', ''Paris''])))"
proof -
  have "normalize_reason_capital ''Kota ini bukan ibu kota Prancis.''
      (extract_proper_tokens [''Lyon'', ''Paris'']) = ''kota ini bukan ibu kota Prancis.''"
    by code_simp
  then show ?thesis by (simp add: py_isupper_def)
qed

section \<open>The order of the indices\<close>

lemma float_lt_irrefl: "\<not> float_lt a a"
  by (cases a) auto

lemma float_lt_trans: "float_lt a b \<Longrightarrow> float_lt b c \<Longrightarrow> float_lt a c"
  by (cases a; cases b; cases c) auto

lemma float_lt_total: "a \<noteq> b \<Longrightarrow> float_lt a b \<or> float_lt b a"
  by (cases a; cases b) auto

lemma float_neg_lt: "float_lt (float_neg a) (float_neg b) = float_lt b a"
  by (cases a; cases b) auto

lemma float_neg_eq: "(float_neg a = float_neg b) = (a = b)"
  by (cases a; cases b) auto

lemma key_lt_trans: "key_lt a b \<Longrightarrow> key_lt b c \<Longrightarrow> key_lt a c"
  unfolding key_lt_def using float_lt_trans by (metis less_trans)

lemma key_lt_asym: "key_lt a b \<Longrightarrow> \<not> key_lt b a"
  unfolding key_lt_def using float_lt_trans float_lt_irrefl by (metis less_asym)

lemma key_lt_total: "a \<noteq> b \<Longrightarrow> key_lt a b \<or> key_lt b a"
  unfolding key_lt_def using float_lt_total by (metis linorder_neqE_nat prod.expand)

lemma key_lt_neg_trans: "\<not> key_lt z y \<Longrightarrow> \<not> key_lt y x \<Longrightarrow> \<not> key_lt z x"
  using key_lt_total key_lt_trans by metis

lemma set_insert_by_key: "set (insert_by_key key x ys) = insert x (set ys)"
  by (induction ys) auto

lemma distinct_insert_by_key:
  "distinct (insert_by_key key x ys) = (x \<notin> set ys \<and> distinct ys)"
  by (induction ys) (auto simp: set_insert_by_key)

lemma sorted_insert_by_key:
  "sorted_wrt (\<lambda>a b. \<not> key_lt (key b) (key a)) ys \<Longrightarrow>
     sorted_wrt (\<lambda>a b. \<not> key_lt (key b) (key a)) (insert_by_key key x ys)"
proof (induction ys)
  case Nil
  then show ?case by simp
next
  case (Cons y ys)
  show ?case
  proof (cases "key_lt (key y) (key x)")
    case True
    then show ?thesis
      using Cons key_lt_asym[of "key y" "key x"] by (auto simp: set_insert_by_key)
  next
    case False
    then show ?thesis
      using Cons.prems key_lt_neg_trans[of _ "key y" "key x"] by auto
  qed
qed

lemma set_py_sorted: "set (py_sorted key xs) = set xs"
  unfolding py_sorted_def by (induction xs) (auto simp: set_insert_by_key)

lemma distinct_py_sorted: "distinct (py_sorted key xs) = distinct xs"
  unfolding py_sorted_def
  by (induction xs) (auto simp: distinct_insert_by_key set_py_sorted[unfolded py_sorted_def])

lemma sorted_py_sorted: "sorted_wrt (\<lambda>a b. \<not> key_lt (key b) (key a)) (py_sorted key xs)"
  unfolding py_sorted_def by (induction xs) (auto intro: sorted_insert_by_key)

lemma sorted_wrt_distinct:
  "sorted_wrt P xs \<Longrightarrow> distinct xs \<Longrightarrow> sorted_wrt (\<lambda>a b. P a b \<and> a \<noteq> b) xs"
  by (induction xs) auto

text \<open>The loop of \<^verbatim>\<open>_order_indices\<close> keeps each index once, and only indices of
  options with a text.\<close>

lemma order_filter_props:
  "distinct filtered \<Longrightarrow> set filtered \<subseteq> seen \<Longrightarrow>
     distinct (order_filter om seen filtered xs)
     \<and> set (order_filter om seen filtered xs) \<subseteq> set filtered
           \<union> {idx \<in> set xs. idx < length om \<and> om ! idx \<noteq> []}"
proof (induction om seen filtered xs rule: order_filter.induct)
  case (1 om seen filtered)
  then show ?case by simp
next
  case (2 om seen filtered idx rest)
  show ?case
  proof (cases "idx \<in> seen \<or> idx \<ge> length om \<or> om ! idx = []")
    case True
    then show ?thesis using 2 by auto
  next
    case False
    then have d: "distinct (filtered @ [idx])" "set (filtered @ [idx]) \<subseteq> insert idx seen"
      using "2.prems" by auto
    show ?thesis using False "2.IH"(3)[OF _ _ d] by auto
  qed
qed

lemma order_indices_props:
  "distinct (order_indices indices scores om)"
  "set (order_indices indices scores om) \<subseteq> {idx \<in> set indices. idx < length om \<and> om ! idx \<noteq> []}"
  using order_filter_props[of "[]" "{}" om indices]
  by (auto simp: order_indices_def distinct_py_sorted set_py_sorted)

lemma key_lt_score_sort_key:
  "key_lt (score_sort_key a scores) (score_sort_key b scores) = comes_before scores a b"
  by (auto simp: key_lt_def score_sort_key_def comes_before_def score_of_def Let_def
      float_neg_lt float_neg_eq split: option.splits)

lemma order_indices_sorted: "sorted_wrt (comes_before scores) (order_indices indices scores om)"
proof -
  let ?key = "\<lambda>idx. score_sort_key idx scores"
  let ?res = "order_indices indices scores om"
  have "sorted_wrt (\<lambda>a b. \<not> key_lt (?key b) (?key a) \<and> a \<noteq> b) ?res"
    using sorted_py_sorted[of ?key] order_indices_props(1)[of indices scores om]
    by (auto simp: order_indices_def intro: sorted_wrt_distinct)
  moreover have "\<not> key_lt (?key b) (?key a) \<and> a \<noteq> b \<Longrightarrow> comes_before scores a b" for a b
    using key_lt_total[of "?key a" "?key b"] key_lt_score_sort_key[of a scores b]
    by (auto simp: score_sort_key_def Let_def)
  ultimately show ?thesis
    using sorted_wrt_mono_rel[of ?res "\<lambda>a b. \<not> key_lt (?key b) (?key a) \<and> a \<noteq> b" "comes_before scores"]
    by blast
qed


section \<open>The two lists of indices\<close>

lemma length_build_option_map: "length (build_option_map e r) = 5"
  by (simp add: build_option_map_def OPTION_COLUMNS_def OPTION_TEXT_LABELS_def)

lemma pd_option_map_build_prompt: "pd_option_map (build_prompt e r) = build_option_map e r"
  by (simp add: build_prompt_def Let_def)

lemma pd_incorrect_build_prompt:
  "set (pd_incorrect_indices (build_prompt e r)) \<inter> set (pd_correct_indices (build_prompt e r)) = {}"
  by (auto simp: build_prompt_def Let_def)

lemma ordered_indices_fst:
  "fst (ordered_indices e r) =
     order_indices (pd_correct_indices (build_prompt e r)) (extract_option_scores r)
       (build_option_map e r)"
  by (simp add: ordered_indices_def Let_def pd_option_map_build_prompt)

lemma ordered_indices_snd:
  "snd (ordered_indices e r) =
     order_indices (pd_incorrect_indices (build_prompt e r)) (extract_option_scores r)
       (build_option_map e r)"
  by (simp add: ordered_indices_def Let_def pd_option_map_build_prompt)

lemma ordered_indices_tkp_row: "ordered_indices plain_env tkp_row = ([2], [1, 0, 3])"
  by code_simp

text \<open>C2. For every row and environment, the list of correct indices and the list of
  incorrect indices that the loop body works with (the lists of \<^verbatim>\<open>build_prompt\<close> after
  \<^verbatim>\<open>_order_indices\<close>) have no index in common, and every index in either list is
  the index of an option whose text is not empty.\<close>

theorem ordered_indices_disjoint_populated:
  "set (fst (ordered_indices e r)) \<inter> set (snd (ordered_indices e r)) = {}
   \<and> (\<forall>idx \<in> set (fst (ordered_indices e r)) \<union> set (snd (ordered_indices e r)).
         idx < length (build_option_map e r) \<and> build_option_map e r ! idx \<noteq> [])"
proof -
  let ?om = "build_option_map e r"
  let ?sc = "extract_option_scores r"
  let ?c = "pd_correct_indices (build_prompt e r)"
  let ?i = "pd_incorrect_indices (build_prompt e r)"
  have c: "set (order_indices ?c ?sc ?om) \<subseteq> {idx \<in> set ?c. idx < length ?om \<and> ?om ! idx \<noteq> []}"
    by (rule order_indices_props(2))
  have i: "set (order_indices ?i ?sc ?om) \<subseteq> {idx \<in> set ?i. idx < length ?om \<and> ?om ! idx \<noteq> []}"
    by (rule order_indices_props(2))
  have "set (order_indices ?c ?sc ?om) \<inter> set (order_indices ?i ?sc ?om) = {}"
    using c i pd_incorrect_build_prompt[of e r] by blast
  moreover have "\<forall>idx \<in> set (order_indices ?c ?sc ?om) \<union> set (order_indices ?i ?sc ?om).
                   idx < length ?om \<and> ?om ! idx \<noteq> []"
    using c i by blast
  ultimately show ?thesis
    by (simp only: ordered_indices_fst ordered_indices_snd) 
qed

theorem ordered_indices_disjoint_populated_witness:
  "(1::nat) \<in> set (fst (ordered_indices plain_env tkp_row))
                 \<union> set (snd (ordered_indices plain_env tkp_row))
   \<and> 1 < length (build_option_map plain_env tkp_row)
   \<and> build_option_map plain_env tkp_row ! 1 \<noteq> []
   \<and> set (fst (ordered_indices plain_env tkp_row))
         \<inter> set (snd (ordered_indices plain_env tkp_row)) = {}"
  using ordered_indices_disjoint_populated[of plain_env tkp_row] ordered_indices_tkp_row
  by simp

text \<open>C3. For every row and environment, each of the two lists is in the order of
  descending score, a missing score counting as minus infinity, and indices of equal
  score are in ascending order.\<close>

theorem ordered_indices_by_score:
  "sorted_wrt (comes_before (extract_option_scores r)) (fst (ordered_indices e r))
   \<and> sorted_wrt (comes_before (extract_option_scores r)) (snd (ordered_indices e r))"
  by (simp only: ordered_indices_fst ordered_indices_snd order_indices_sorted simp_thms)


theorem ordered_indices_by_score_witness:
  "snd (ordered_indices plain_env tkp_row) = [1, 0, 3]
   \<and> sorted_wrt (comes_before (extract_option_scores tkp_row)) [1, 0, 3]
   \<and> sorted_wrt (comes_before (extract_option_scores tkp_row)) [2]"
  using ordered_indices_by_score[of tkp_row plain_env] ordered_indices_tkp_row
  by simp

section \<open>The option with the highest score\<close>

lemma scored_options_explicit:
  "scored_options r =
     opt_entry 0 (option_a_score r) @ opt_entry 1 (option_b_score r)
       @ opt_entry 2 (option_c_score r) @ opt_entry 3 (option_d_score r)
       @ opt_entry 4 (option_e_score r) @ opt_entry 5 (option_number_score r)"
  by (simp add: scored_options_def OPTION_COLUMNS_def split: option.splits)

lemma extract_option_scores_explicit:
  "extract_option_scores r =
     [option_a_score r, option_b_score r, option_c_score r, option_d_score r, option_e_score r]"
  by (simp add: extract_option_scores_def OPTION_COLUMNS_def OPTION_TEXT_LABELS_def)

lemma set_opt_entry: "(j, v) \<in> set (opt_entry i x) = (j = i \<and> x = Some v)"
  by (cases x) auto

lemma scored_options_member:
  "(j, v) \<in> set (scored_options r) =
     ((j < 5 \<and> extract_option_scores r ! j = Some v) \<or> (j = 5 \<and> option_number_score r = Some v))"
proof -
  have "j < 5 \<longleftrightarrow> j = 0 \<or> j = 1 \<or> j = 2 \<or> j = 3 \<or> j = 4" by arith
  then show ?thesis
    by (auto simp: scored_options_explicit extract_option_scores_explicit set_opt_entry)
qed

lemma map_fst_opt_entry: "map fst (opt_entry i x) = (if x = None then [] else [i])"
  by (cases x) auto

lemma distinct_scored_options: "distinct (map fst (scored_options r))"
  by (simp add: scored_options_explicit map_fst_opt_entry)

lemma py_max_greatest:
  assumes "s \<in> set xs" "\<forall>v\<in>set xs. v \<le> s"
  shows "py_max xs = s"
proof -
  obtain y ys where xs: "xs = y # ys" using assms(1) by (cases xs) auto
  have "py_max xs = Max (set xs)"
    unfolding py_max_def xs using Max.set_eq_fold[of y ys] by simp
  then show ?thesis using assms by (simp add: Max_eqI)
qed

lemma concat_single:
  "distinct (map fst xs) \<Longrightarrow> (i, s) \<in> set xs \<Longrightarrow> (\<forall>(j, v)\<in>set xs. j \<noteq> i \<longrightarrow> v \<noteq> s)
    \<Longrightarrow> concat (map (\<lambda>(idx, value). if value \<noteq> s then [] else g idx) xs) = g i"
proof (induction xs)
  case Nil
  then show ?case by simp
next
  case (Cons x xs)
  obtain j v where x: "x = (j, v)" by (cases x)
  show ?case
  proof (cases "j = i")
    case True
    then have v: "v = s" using Cons.prems x by (auto simp: rev_image_eqI)
    have "\<forall>(j', v')\<in>set xs. v' \<noteq> s"
      using Cons.prems x True by (auto simp: rev_image_eqI)
    then have "concat (map (\<lambda>(idx, value). if value \<noteq> s then [] else g idx) xs) = []"
      by (induction xs) auto
    then show ?thesis using x True v by simp
  next
    case False
    then have "v \<noteq> s" "(i, s) \<in> set xs" using Cons.prems x by auto
    then show ?thesis using Cons x False by auto
  qed
qed

lemma indices_by_score_sole:
  assumes i: "i < 5" "extract_option_scores r ! i = Some s"
    and others: "\<forall>j<5. j \<noteq> i \<longrightarrow> (\<forall>v. extract_option_scores r ! j = Some v \<longrightarrow> v < s)"
    and pilihan: "\<forall>v. option_number_score r = Some v \<longrightarrow> v < s"
  shows "indices_by_score r = [i]"
proof -
  let ?xs = "scored_options r"
  have mem: "(i, s) \<in> set ?xs" using i by (simp add: scored_options_member)
  have lower: "\<forall>(j, v)\<in>set ?xs. j \<noteq> i \<longrightarrow> v < s"
    using others pilihan by (auto simp: scored_options_member)
  have same: "\<forall>(j, v)\<in>set ?xs. j = i \<longrightarrow> v = s"
    using i by (auto simp: scored_options_member)
  have "\<forall>v\<in>set (map snd ?xs). v \<le> s"
    using lower same by fastforce
  moreover have "s \<in> set (map snd ?xs)" using mem by force
  ultimately have mx: "py_max (map snd ?xs) = s" by (rule py_max_greatest[rotated])
  have ne: "?xs \<noteq> []" using mem by auto
  have neq: "\<forall>(j, v)\<in>set ?xs. j \<noteq> i \<longrightarrow> v \<noteq> s" using lower by fastforce
  have label: "fst (OPTION_COLUMNS ! i) \<noteq> ''Pilihan''"
  proof -
    have "i = 0 \<or> i = 1 \<or> i = 2 \<or> i = 3 \<or> i = 4" using i(1) by arith
    then show ?thesis by (auto simp: OPTION_COLUMNS_def)
  qed
  show ?thesis
    unfolding indices_by_score_def Let_def mx
    using ne concat_single[OF distinct_scored_options mem neq,
        of "\<lambda>idx. if fst (OPTION_COLUMNS ! idx) = ''Pilihan''
                    then (case map_of letter_mapping (option_letter r) of
                            Some mapped \<Rightarrow> [mapped] | None \<Rightarrow> [])
                    else [idx]"] label
    by simp
qed

lemma infer_correct_indices_sole:
  assumes "indices_by_score r = [i]"
  shows "infer_correct_indices e r option_texts = [i]"
  using assms by (simp add: infer_correct_indices_def)

lemma reorder_correct_single: "reorder_correct om [i] = [i]"
  by (auto simp: reorder_correct_def Let_def)


lemma incorrect_indices_sole:
  assumes "pd_correct_indices (build_prompt e r) = [i]"
  shows "pd_incorrect_indices (build_prompt e r)
           = filter (\<lambda>j. j \<noteq> i \<and> build_option_map e r ! j \<noteq> []) [0 ..< 5]"
proof -
  have c: "reorder_correct (build_option_map e r)
             (infer_correct_indices e r (build_option_map e r)) = [i]"
    using assms by (simp add: build_prompt_def Let_def)
  have "filter (\<lambda>x. x \<noteq> i \<and> x < 5 \<and> build_option_map e r ! x \<noteq> []) [0 ..< 5]
          = filter (\<lambda>j. j \<noteq> i \<and> build_option_map e r ! j \<noteq> []) [0 ..< 5]"
    by (rule filter_cong) auto
  then show ?thesis
    unfolding build_prompt_def Let_def
    by (simp add: c length_build_option_map)
qed

text \<open>C1, as the code has it. The scores that decide are six: those of the options A
  to E and that of the chosen-option column \<^verbatim>\<open>option_number_score\<close>, whose index
  comes from the letter in \<^verbatim>\<open>option_number\<close>. When one lettered option has a score
  above those of all other lettered options, and the chosen-option column has no score
  or a smaller one, \<^verbatim>\<open>build_prompt\<close> returns the index of that option as the only
  correct index, and as incorrect indices all other indices whose option text is not
  empty.\<close>

theorem sole_max_score_is_correct:
  assumes "strict_max_at (extract_option_scores r) i s"
    and "\<forall>v. option_number_score r = Some v \<longrightarrow> v < s"
  shows "pd_correct_indices (build_prompt e r) = [i]
         \<and> pd_incorrect_indices (build_prompt e r)
             = filter (\<lambda>j. j \<noteq> i \<and> build_option_map e r ! j \<noteq> []) [0 ..< 5]"
proof -
  have len: "length (extract_option_scores r) = 5"
    by (simp add: extract_option_scores_explicit)
  have "indices_by_score r = [i]"
    using assms indices_by_score_sole[of i r s] by (simp add: strict_max_at_def len)
  then have c: "pd_correct_indices (build_prompt e r) = [i]"
    by (simp add: build_prompt_def Let_def infer_correct_indices_sole reorder_correct_single)
  then show ?thesis using incorrect_indices_sole by simp
qed

theorem sole_max_score_is_correct_witness:
  "strict_max_at (extract_option_scores tkp_row) 2 5
   \<and> option_number_score tkp_row = None
   \<and> pd_correct_indices (build_prompt plain_env tkp_row) = [2]
   \<and> pd_incorrect_indices (build_prompt plain_env tkp_row) = [0, 1, 3]"
proof -
  have h1: "strict_max_at (extract_option_scores tkp_row) 2 5"
    by (simp add: strict_max_at_def extract_option_scores_explicit tkp_row_def empty_row_def
        All_less_Suc nth_Cons')
  have h2: "option_number_score tkp_row = None"
    by (simp add: tkp_row_def empty_row_def)
  have om: "build_option_map plain_env tkp_row
              = [''Menegur rekan'', ''Diam saja'', ''Melapor ke atasan'', ''Pergi'', []]"
    by code_simp
  have "filter (\<lambda>j. j \<noteq> 2 \<and> build_option_map plain_env tkp_row ! j \<noteq> []) [0 ..< 5]
          = [0, 1, 3]"
    unfolding om by code_simp
  then show ?thesis
    using sole_max_score_is_correct[OF h1, of plain_env] h1 h2 by simp
qed

text \<open>The claim as it stands looks at the five lettered options only. In the row below
  option A alone has the highest score among them, and the correct index is that of
  option B, which the chosen-option column names with a higher score.\<close>

theorem sole_max_lettered_not_correct:
  "strict_max_at (extract_option_scores paris_row) 0 10
   \<and> pd_correct_indices (build_prompt plain_env paris_row) = [1]
   \<and> pd_incorrect_indices (build_prompt plain_env paris_row) = [0]"
proof -
  have "strict_max_at (extract_option_scores paris_row) 0 10"
    by (simp add: strict_max_at_def extract_option_scores_explicit paris_row_def empty_row_def
        All_less_Suc nth_Cons')
  moreover have "pd_correct_indices (build_prompt plain_env paris_row) = [1]"
    by code_simp
  moreover have "pd_incorrect_indices (build_prompt plain_env paris_row) = [0]"
    by code_simp
  ultimately show ?thesis by simp
qed

section \<open>Rows that are passed over, replies that do not parse, and the second request\<close>

lemma parse_response_attempts: "parse_response e raw_text = first_success e (parse_attempts raw_text)"
  by (simp add: parse_response_def try_loads_def parse_attempts_def Let_def
      split: option.splits prod.splits raising.splits)

lemma pd_prompt_build_prompt: "pd_prompt (build_prompt e r) = prompt_text e r"
  by (simp add: build_prompt_def Let_def)

lemma process_row_skip:
  "should_skip_row (category r) (sub_category r) = Some reason \<Longrightarrow>
     process_row e r = \<lparr> outcome = Skipped reason, calls = [] \<rparr>"
  by (simp add: process_row_def)

lemma process_row_request:
  assumes "should_skip_row (category r) (sub_category r) = None"
    and "fst (ordered_indices e r) \<noteq> []"
  shows "process_row e r =
           (case request e (prompt_text e r) of
              (None, cs) \<Rightarrow> \<lparr> outcome = Failed, calls = cs \<rparr>
            | (Some raw_text, cs) \<Rightarrow>
                (case parse_response e raw_text of
                   Raises x \<Rightarrow> \<lparr> outcome = Failed, calls = cs \<rparr>
                 | Returns None \<Rightarrow> \<lparr> outcome = Unparseable raw_text, calls = cs \<rparr>
                 | Returns (Some data) \<Rightarrow>
                     if is_tiu_numerik (category r) (sub_category r)
                     then numeric_retry e r (prompt_text e r) data cs
                     else finish_row e r data cs))"
  using assms
  by (cases "ordered_indices e r")
     (simp add: process_row_def Let_def pd_prompt_build_prompt
        cong del: option.case_cong_weak prod.case_cong_weak raising.case_cong_weak if_weak_cong)

text \<open>C4. A row whose category is \<^verbatim>\<open>TIU\<close> up to case and whitespace and whose
  normalised sub-category starts with \<^verbatim>\<open>figural\<close> or \<^verbatim>\<open>numerik deret\<close> is passed
  over with the reason of its sub-category. This is the result for every environment,
  whatever its instruction text, and without a call of the service: the row is passed
  over before \<^verbatim>\<open>build_prompt\<close> runs. The outcome is not \<open>Written\<close>: no document is
  stored.\<close>

theorem excluded_subcategory_skipped:
  assumes "normalize_label (category r) = ''tiu''"
    and "py_startswith (normalize_label (sub_category r)) ''figural''
         \<or> py_startswith (normalize_label (sub_category r)) ''numerik deret''"
  shows "process_row e r =
           \<lparr> outcome = Skipped (if py_startswith (normalize_label (sub_category r)) ''figural''
                                then ''subkategori TIU figural di-skip.''
                                else ''subkategori TIU numerik deret di-skip.''),
             calls = [] \<rparr>"
  using assms by (auto simp: should_skip_row_def Let_def intro!: process_row_skip)

theorem excluded_subcategory_skipped_witness:
  "normalize_label (category figural_row) = ''tiu''
   \<and> py_startswith (normalize_label (sub_category figural_row)) ''figural''
   \<and> process_row chatty_env figural_row
       = \<lparr> outcome = Skipped ''subkategori TIU figural di-skip.'', calls = [] \<rparr>"
proof -
  have h1: "normalize_label (category figural_row) = ''tiu''" by code_simp
  have h2: "py_startswith (normalize_label (sub_category figural_row)) ''figural''" by code_simp
  show ?thesis
    using excluded_subcategory_skipped[of figural_row chatty_env] h1 h2 by simp
qed

lemma first_success_returns:
  "(\<forall>t\<in>set ts. \<forall>x. json_loads e t = Raises x \<longrightarrow> x = JSONDecodeError)
     \<Longrightarrow> \<exists>res. first_success e ts = Returns res"
  by (induction ts) (auto split: raising.splits)

lemma first_success_found:
  "first_success e ts = Returns (Some v) \<Longrightarrow>
     \<exists>before t after. ts = before @ t # after \<and> json_loads e t = Returns v
        \<and> (\<forall>u\<in>set before. json_loads e u = Raises JSONDecodeError)"
proof (induction ts)
  case Nil
  then show ?case by simp
next
  case (Cons a ts)
  show ?case
  proof (cases "json_loads e a")
    case (Returns parsed)
    then have "parsed = v" using Cons.prems by (auto simp: loaded_def split: if_splits)
    then show ?thesis using Returns
      by (intro exI[of _ "[]"] exI[of _ a] exI[of _ ts]) simp
  next
    case (Raises x)
    then have x: "x = JSONDecodeError" and rest: "first_success e ts = Returns (Some v)"
      using Cons.prems by (auto split: if_splits)
    obtain before t after where
      "ts = before @ t # after" "json_loads e t = Returns v"
      "\<forall>u\<in>set before. json_loads e u = Raises JSONDecodeError"
      using Cons.IH[OF rest] by blast
    then show ?thesis
      using Raises x by (intro exI[of _ "a # before"] exI[of _ t] exI[of _ after]) simp
  qed
qed

lemma first_success_none:
  "(\<forall>t\<in>set ts. json_loads e t = Raises JSONDecodeError) \<Longrightarrow> first_success e ts = Returns None"
  by (induction ts) auto

text \<open>C5, as the code has it. \<^verbatim>\<open>_parse_response\<close> catches the decode error of the
  library parser and nothing else. Its attempts are the reply, the repaired reply, and,
  when the first \<^verbatim>\<open>{\<close> stands before the last \<^verbatim>\<open>}\<close>, the text from the one to the
  other and that text repaired. When no attempt raises anything but a decode error, the
  parser returns: the value of the first attempt that parses, every attempt before it
  having ended in a decode error, and \<open>None\<close> when all of them end so; on \<open>None\<close> the
  row is passed over as \<open>Unparseable\<close>, with the reply kept and no document stored.
  An exception of another kind leaves the parser and ends the row at the row boundary,
  again with no document stored.\<close>

theorem parse_response_outcome:
  "parse_response e raw_text = first_success e (parse_attempts raw_text)
   \<and> ((\<forall>t\<in>set (parse_attempts raw_text). \<forall>x. json_loads e t = Raises x \<longrightarrow> x = JSONDecodeError)
        \<longrightarrow> (\<exists>res. parse_response e raw_text = Returns res))
   \<and> (parse_response e raw_text = Returns (Some v)
        \<longrightarrow> (\<exists>before t after. parse_attempts raw_text = before @ t # after
               \<and> json_loads e t = Returns v
               \<and> (\<forall>u\<in>set before. json_loads e u = Raises JSONDecodeError)))
   \<and> ((\<forall>t\<in>set (parse_attempts raw_text). json_loads e t = Raises JSONDecodeError)
        \<longrightarrow> parse_response e raw_text = Returns None)
   \<and> (should_skip_row (category r) (sub_category r) = None
        \<and> fst (ordered_indices e r) \<noteq> []
        \<and> request e (prompt_text e r) = (Some reply, cs)
      \<longrightarrow> (parse_response e reply = Returns None
             \<longrightarrow> process_row e r = \<lparr> outcome = Unparseable reply, calls = cs \<rparr>)
          \<and> (\<forall>x. parse_response e reply = Raises x
             \<longrightarrow> process_row e r = \<lparr> outcome = Failed, calls = cs \<rparr>))"
  using process_row_request[of r e] first_success_returns[of "parse_attempts raw_text" e]
    first_success_found[of e "parse_attempts raw_text" v]
    first_success_none[of "parse_attempts raw_text" e]
  by (simp add: parse_response_attempts)

theorem parse_response_outcome_witness:
  "should_skip_row (category tkp_row) (sub_category tkp_row) = None
   \<and> fst (ordered_indices chatty_env tkp_row) \<noteq> []
   \<and> parse_response chatty_env ''Maaf, saya tidak bisa.'' = Returns None
   \<and> process_row chatty_env tkp_row
       = \<lparr> outcome = Unparseable ''Maaf, saya tidak bisa.'', calls = [(True, ''Soal'')] \<rparr>"
proof -
  have h1: "should_skip_row (category tkp_row) (sub_category tkp_row) = None" by code_simp
  have "ordered_indices chatty_env tkp_row = ([2], [1, 0, 3])" by code_simp
  then have h2: "fst (ordered_indices chatty_env tkp_row) \<noteq> []" by simp
  have h3: "request chatty_env (prompt_text chatty_env tkp_row)
              = (Some ''Maaf, saya tidak bisa.'', [(True, ''Soal'')])"
    by code_simp
  have h4: "\<forall>t\<in>set (parse_attempts ''Maaf, saya tidak bisa.'').
              json_loads chatty_env t = Raises JSONDecodeError"
    by (simp add: chatty_env_def plain_env_def)
  have h5: "parse_response chatty_env ''Maaf, saya tidak bisa.'' = Returns None"
    using parse_response_outcome[of chatty_env "''Maaf, saya tidak bisa.''" JNull tkp_row
        "''Maaf, saya tidak bisa.''" "[(True, ''Soal'')]"] h4
    by blast
  show ?thesis
    using parse_response_outcome[of chatty_env "''Maaf, saya tidak bisa.''" JNull tkp_row
        "''Maaf, saya tidak bisa.''" "[(True, ''Soal'')]"] h1 h2 h3 h5
    by simp
qed

text \<open>The claim as it stands says that the parser never raises. On a reply that opens a
  thousand arrays the library parser raises \<^verbatim>\<open>RecursionError\<close> at the first attempt;
  no clause of \<^verbatim>\<open>_parse_response\<close> catches it.\<close>

theorem parse_response_raises:
  "parse_response deep_env (replicate 1000 CHR ''['') = Raises RecursionError"
  by (simp add: parse_response_def try_loads_def deep_env_def)





section \<open>The repair pass\<close>

declare repair_loop.simps [simp del]

lemma count_backslashes_append:
  "n \<le> length pre \<Longrightarrow> count_backslashes (pre @ suf) n = count_backslashes pre n"
  by (induction n) (auto simp: nth_append)

lemma trailing_at: "count_backslashes (pre @ suf) (length pre) = trailing pre"
  by (simp add: trailing_def count_backslashes_append)

lemma trailing_snoc:
  "trailing (pre @ [c]) = (if c = CHR 0x5C then Suc (trailing pre) else 0)"
  unfolding trailing_def by (simp add: count_backslashes_append nth_append)

lemma is_escaped_at: "is_escaped (pre @ suf) (length pre) = odd (trailing pre)"
  by (simp add: is_escaped_def trailing_at odd_iff_mod_2_eq_one)

text \<open>One round of the loop, at the position after \<open>pre\<close>.\<close>

lemma repair_end: "repair_loop pre (length pre) b acc = acc"
  by (subst repair_loop.simps) simp

lemma repair_quote:
  "even (trailing pre) \<Longrightarrow>
     repair_loop (pre @ CHR 0x22 # rest) (length pre) b acc
       = repair_loop ((pre @ [CHR 0x22]) @ rest) (length (pre @ [CHR 0x22])) (\<not> b) (acc @ [CHR 0x22])"
  using is_escaped_at[of pre "CHR 0x22 # rest"]
  by (subst repair_loop.simps) (simp add: nth_append Let_def)

lemma repair_plain:
  "c \<noteq> CHR 0x22 \<Longrightarrow> \<not> (b \<and> (c = CHR 0x0A \<or> c = CHR 0x0D \<or> c = CHR 0x5C)) \<Longrightarrow>
     repair_loop (pre @ c # rest) (length pre) b acc
       = repair_loop ((pre @ [c]) @ rest) (length (pre @ [c])) b (acc @ [c])"
  by (subst repair_loop.simps) (auto simp: nth_append Let_def)

lemma repair_newline:
  "repair_loop (pre @ CHR 0x0A # rest) (length pre) True acc
     = repair_loop ((pre @ [CHR 0x0A]) @ rest) (length (pre @ [CHR 0x0A])) True
         (acc @ [CHR 0x5C, CHR ''n''])"
  by (subst repair_loop.simps) (simp add: nth_append Let_def)

lemma repair_pair:
  "d \<in> set escape_chars \<Longrightarrow>
     repair_loop (pre @ CHR 0x5C # d # rest) (length pre) True acc
       = repair_loop ((pre @ [CHR 0x5C, d]) @ rest) (length (pre @ [CHR 0x5C, d])) True
           (acc @ [CHR 0x5C, d])"
  by (subst repair_loop.simps) (simp add: nth_append Let_def)


text \<open>The loop undoes \<open>loosen\<close>, from any position between two tokens.\<close>

lemma repair_loosen:
  "strings_ok b t \<Longrightarrow> even (trailing pre) \<Longrightarrow>
     repair_loop (pre @ loosen choices b t) (length pre) b acc = acc @ t"
proof (induction choices b t arbitrary: pre acc rule: loosen.induct)
  case (1 choices in_string)
  then show ?case by (simp add: repair_end)
next
  case (2 choices c cs)
  show ?case
  proof (cases "c = CHR 0x22")
    case True
    have "even (trailing (pre @ [c]))" using True by (simp add: trailing_snoc)
    then show ?thesis
      using "2.IH"[of "pre @ [c]" "acc @ [c]"] "2.prems" True repair_quote[of pre "loosen choices True cs" False acc]
      by simp
  next
    case False
    have "even (trailing (pre @ [c]))" using "2.prems"(1) False by (simp add: trailing_snoc)
    then show ?thesis
      using "2.IH"[of "pre @ [c]" "acc @ [c]"] "2.prems" False
        repair_plain[of c False pre "loosen choices False cs" acc]
      by simp
  qed
next
  case (3 choices c)
  show ?case
  proof (cases "c = CHR 0x22")
    case True
    then show ?thesis
      using "3.prems" repair_quote[of pre "[]" True acc] repair_end[of "pre @ [c]"] by simp
  next
    case False
    then show ?thesis
      using "3.prems" repair_plain[of c True pre "[]" acc] repair_end[of "pre @ [c]"] by simp
  qed
next
  case (4 choices c d ds)
  consider (quote) "c = CHR 0x22" | (bs) "c = CHR 0x5C" | (plain) "c \<noteq> CHR 0x22" "c \<noteq> CHR 0x5C"
    by blast
  then show ?case
  proof cases
    case quote
    have "even (trailing (pre @ [c]))" using quote by (simp add: trailing_snoc)
    then show ?thesis
      using "4.IH"(1)[OF quote, of "pre @ [c]" "acc @ [c]"] "4.prems" quote
        repair_quote[of pre "loosen choices False (d # ds)" True acc]
      by simp
  next
    case bs
    have nq: "c \<noteq> CHR 0x22" using bs by simp
    have ok: "d \<in> set escape_chars" "strings_ok True ds" using "4.prems"(1) bs by auto
    have ev2: "even (trailing (pre @ [c, d]))"
      using "4.prems"(2) bs trailing_snoc[of "pre @ [c]" d] trailing_snoc[of pre c] by simp
    have evn: "even (trailing (pre @ [CHR 0x0A]))" by (simp add: trailing_snoc)
    show ?thesis
    proof (cases "d = CHR ''n''")
      case False
      then show ?thesis
        using "4.IH"(5)[OF nq bs False, of "pre @ [c, d]" "acc @ [c, d]"] bs ok ev2
          repair_pair[OF ok(1), of pre "loosen choices True ds" acc]
        by simp
    next
      case True
      show ?thesis
      proof (cases choices)
        case Nil
        then show ?thesis
          using "4.IH"(2)[OF nq bs True Nil, of "pre @ [c, d]" "acc @ [c, d]"] bs ok ev2 True Nil
            repair_pair[OF ok(1), of pre "loosen [] True ds" acc]
          by simp
      next
        case (Cons choice rest)
        show ?thesis
        proof (cases choice)
          case t: True
          then show ?thesis
            using "4.IH"(3)[OF nq bs True Cons t, of "pre @ [CHR 0x0A]" "acc @ [c, d]"] bs ok evn True Cons
              repair_newline[of pre "loosen rest True ds" acc]
            by simp
        next
          case f: False
          then show ?thesis
            using "4.IH"(4)[OF nq bs True Cons f, of "pre @ [c, d]" "acc @ [c, d]"] bs ok ev2 True Cons
              repair_pair[OF ok(1), of pre "loosen rest True ds" acc]
            by simp
        qed
      qed
    qed
  next
    case plain
    have nl: "c \<noteq> CHR 0x0A" "c \<noteq> CHR 0x0D" "strings_ok True (d # ds)"
      using "4.prems"(1) plain by auto
    have "even (trailing (pre @ [c]))" using plain by (simp add: trailing_snoc)
    then show ?thesis
      using "4.IH"(6)[OF plain, of "pre @ [c]" "acc @ [c]"] plain nl
        repair_plain[of c True pre "loosen choices True (d # ds)" acc]
      by simp
  qed
qed


lemma repair_json_text_loosen:
  "strings_ok False t \<Longrightarrow> repair_json_text (loosen choices False t) = t"
  using repair_loosen[of False t "[]" choices "[]"]
  by (simp add: repair_json_text_def trailing_def)

text \<open>C6. Let \<open>t\<close> be a text with well-formed string literals that the library
  parser reads as an object, and let the reply be \<open>t\<close> with any of the \<^verbatim>\<open>\n\<close> escapes
  inside its literals written as raw line feeds. The repair pass returns \<open>t\<close>: it
  escapes exactly those line feeds again. So the parser returns the object, at the
  second attempt when the library parser rejects the raw reply with a decode error, at
  the first when no escape was replaced.\<close>

theorem repair_restores_newlines:
  assumes "strings_ok False t" and "json_loads e t = Returns (JObj items)"
  shows "repair_json_text (loosen choices False t) = t
       \<and> (json_loads e (loosen choices False t) = Raises JSONDecodeError
              \<or> loosen choices False t = t
            \<longrightarrow> parse_response e (loosen choices False t) = Returns (Some (JObj items)))"
proof -
  have r: "repair_json_text (loosen choices False t) = t"
    using assms(1) by (rule repair_json_text_loosen)
  have "parse_response e (loosen choices False t) = Returns (Some (JObj items))"
    if "json_loads e (loosen choices False t) = Raises JSONDecodeError \<or> loosen choices False t = t"
    using that assms(2) r
    by (auto simp: parse_response_def try_loads_def Let_def loaded_def)
  then show ?thesis using r by blast
qed

theorem repair_restores_newlines_witness:
  "strings_ok False two_line_reply
   \<and> loosen [True] False two_line_reply
       = ''{'' @ [CHR 0x22] @ ''correct_summary'' @ [CHR 0x22] @ '': '' @ [CHR 0x22]
           @ ''12'' @ [CHR 0x0A] @ ''dua belas'' @ [CHR 0x22] @ ''}''
   \<and> json_loads two_line_env (loosen [True] False two_line_reply) = Raises JSONDecodeError
   \<and> repair_json_text (loosen [True] False two_line_reply) = two_line_reply
   \<and> parse_response two_line_env (loosen [True] False two_line_reply)
       = Returns (Some (JObj [(''correct_summary'', JStr (''12'' @ [CHR 0x0A] @ ''dua belas''))]))"
proof -
  have h1: "strings_ok False two_line_reply"
    by (simp add: two_line_reply_def escape_chars_def)
  have l: "loosen [True] False two_line_reply
       = ''{'' @ [CHR 0x22] @ ''correct_summary'' @ [CHR 0x22] @ '': '' @ [CHR 0x22]
           @ ''12'' @ [CHR 0x0A] @ ''dua belas'' @ [CHR 0x22] @ ''}''"
    by (simp add: two_line_reply_def)
  have h2: "json_loads two_line_env two_line_reply
              = Returns (JObj [(''correct_summary'', JStr (''12'' @ [CHR 0x0A] @ ''dua belas''))])"
    by (simp add: two_line_env_def plain_env_def)
  have h3: "json_loads two_line_env (loosen [True] False two_line_reply) = Raises JSONDecodeError"
    unfolding l by (simp add: two_line_env_def plain_env_def two_line_reply_def)
  show ?thesis
    using repair_restores_newlines[OF h1 h2, of "[True]"] h1 l h3 by simp
qed


end
